theory Spec2Isabelle
  imports Main "HOL-Library.Word"
begin

section \<open>The websocket client of package basic (client.go)\<close>

text \<open>
  The client owns a websocket connection, a buffered message channel, a dispatch table
  and the close machinery (a wait group, a \<open>sync.Once\<close>, a close channel and a flag).
  Everything the client does to the outside (log lines, dial attempts, calls of
  \<open>conn.WriteMessage\<close>, the physical close, callbacks, handler calls) is recorded in order
  in the field \<open>effects\<close>, which is not a field of the Go struct.
\<close>

subsection \<open>Values of the libraries the client calls\<close>

type_synonym bytes = "8 word list"

datatype arg = Links "string list" | IntArg int | BytesArg bytes

text \<open>
  A Go \<open>error\<close>: one made by a library (the websocket library's \<open>*CloseError\<close> with its
  code and text among them), or \<open>errors.Wrapf(err, format, args...)\<close>.
\<close>

datatype error = ErrorString string | CloseError int string | Wrapf error string "arg list"

text \<open>
  Modelled from the spec: \<open>proto.Message\<close> is declared outside client.go; a message
  carries an operation code (\<open>msg.Operation()\<close>, a uint32) and a payload of raw bytes.
\<close>

record message =
  Operation :: "32 word"
  Payload :: bytes

text \<open>
  A connection handle returned by the dialer: the address it was opened to, and what its
  \<open>Close()\<close> returns.
\<close>

record conn =
  address :: string
  close_result :: "error option"

text \<open>
  The frame types and the close code of the websocket library (RFC 6455); \<open>noFrame\<close> is
  the type its reads return together with an error.
\<close>

definition noFrame :: int where "noFrame = - 1"
definition TextMessage :: int where "TextMessage = 1"
definition BinaryMessage :: int where "BinaryMessage = 2"
definition CloseMessage :: int where "CloseMessage = 8"
definition PingMessage :: int where "PingMessage = 9"
definition PongMessage :: int where "PongMessage = 10"
definition CloseNormalClosure :: int where "CloseNormalClosure = 1000"

text \<open>What is written in a frame: the bytes are built by the libraries.\<close>

datatype frame_data =
    FormatCloseMessage int string
  | ToBytes message

text \<open>
  What a call of \<open>conn.WriteMessage\<close> does, which the library and the network decide:
  it writes the frame and returns nil; it returns an error (the library refuses every
  write after a close frame has been written, and writes on a closed or broken
  connection fail); or it panics (the library panics when two goroutines write at once).
\<close>

datatype write_result = Written | Refused error | Write_panic

text \<open>
  What arrives from the peer while a goroutine is in \<open>conn.ReadMessage()\<close>, and what the
  call returns for it. The library is not part of this repository; its \<open>ReadMessage\<close>
  returns text and binary messages only. It answers pings and pongs in its own handlers
  and goes on reading (\<open>None\<close>: the call has not returned), and it reports a close frame
  of the peer, like a failure of the network, as an error.
\<close>

datatype arrival =
    Text_frame bytes
  | Binary_frame bytes
  | Ping_frame bytes
  | Pong_frame bytes
  | Close_frame int string
  | Read_failure error

fun ReadMessage :: "arrival \<Rightarrow> (int \<times> bytes \<times> error option) option" where
  "ReadMessage (Text_frame buf) = Some (TextMessage, buf, None)"
| "ReadMessage (Binary_frame buf) = Some (BinaryMessage, buf, None)"
| "ReadMessage (Ping_frame buf) = None"
| "ReadMessage (Pong_frame buf) = None"
| "ReadMessage (Close_frame code reason) = Some (noFrame, [], Some (CloseError code reason))"
| "ReadMessage (Read_failure err) = Some (noFrame, [], Some err)"

datatype level = Debug | Info | Error

datatype logtext = Lit string | ErrorOf error

datatype attr = slog_Int string int | slog_String string logtext

subsection \<open>Close types\<close>

definition CloseAuthFailed :: int where "CloseAuthFailed = 1"
definition CloseActively :: int where "CloseActively = 2"
definition CloseReadingConnError :: int where "CloseReadingConnError = 3"
definition CloseReceivedShutdownMessage :: int where "CloseReceivedShutdownMessage = 4"
definition CloseTypeUnknown :: int where "CloseTypeUnknown = 5"

subsection \<open>The client\<close>

type_synonym DispatcherHandle = "message \<Rightarrow> error option"

type_synonym callback = string

datatype effect =
    Log level string "attr list"
  | DialerDial string
  | WriteMessage conn int frame_data write_result
  | ConnClose conn
  | OnCloseCall callback int
  | HandleCall "32 word" message

text \<open>
  \<open>sync.Once\<close>: \<open>Fresh\<close> before any \<open>Do\<close>, \<open>Running\<close> while the first caller's
  function executes (the other callers of \<open>Do\<close> wait), \<open>Done\<close> afterwards.
\<close>

datatype once_state = Fresh | Running | Done

text \<open>
  \<open>msgChan\<close> holds its queued elements, oldest first (capacity 1024); an element is the
  message the receiver reads through the queued pointer, \<open>None\<close> for a nil pointer.
  \<open>closeChan\<close> is \<open>True\<close> once the channel is closed. \<open>closeWait\<close> is the counter of the
  wait group. \<open>logger\<close> is the identity of the logger.

  The elements of \<open>msgChan\<close> are pointers to variables of the reader, and two of them may
  point to the same variable. \<open>msgVars\<close> names, for every queued element, the variable it
  points to, and \<open>nextVar\<close> is the next variable not yet in use; like \<open>effects\<close>, the two
  are not fields of the Go struct.
\<close>

record WsClient =
  logger :: nat
  conn :: "conn option"
  msgChan :: "message option list"
  dispatcher :: "32 word \<rightharpoonup> DispatcherHandle"
  authed :: bool
  onClose :: "callback option"
  closeWait :: nat
  once :: once_state
  closeChan :: bool
  isClosed :: bool
  effects :: "effect list"
  msgVars :: "nat list"
  nextVar :: nat

definition emit :: "effect list \<Rightarrow> WsClient \<Rightarrow> WsClient" where
  "emit es c = c\<lparr>effects := effects c @ es\<rparr>"

definition AuthSuccess :: "WsClient \<Rightarrow> WsClient" where
  "AuthSuccess c = c\<lparr>authed := True\<rparr>"

definition IsAuthed :: "WsClient \<Rightarrow> bool" where
  "IsAuthed c = authed c"

definition WithOnClose :: "callback option \<Rightarrow> WsClient \<Rightarrow> WsClient" where
  "WithOnClose cb c = c\<lparr>onClose := cb\<rparr>"

text \<open>A nil map argument is \<open>None\<close>; it is replaced by an empty map.\<close>

definition initDispatcherHandleMap ::
  "(32 word \<rightharpoonup> DispatcherHandle) option \<Rightarrow> WsClient \<Rightarrow> WsClient" where
  "initDispatcherHandleMap dispatcherHandleMap c =
     c\<lparr>dispatcher := (case dispatcherHandleMap of None \<Rightarrow> Map.empty | Some m \<Rightarrow> m)\<rparr>"

definition NewWsClient :: "(32 word \<rightharpoonup> DispatcherHandle) option \<Rightarrow> nat \<Rightarrow> WsClient" where
  "NewWsClient dispatcherHandleMap lg =
     initDispatcherHandleMap dispatcherHandleMap
       \<lparr>logger = lg, conn = None, msgChan = [], dispatcher = Map.empty, authed = False,
        onClose = None, closeWait = 0, once = Fresh, closeChan = False, isClosed = False,
        effects = [], msgVars = [], nextVar = 0\<rparr>"

definition Reset :: "WsClient \<Rightarrow> WsClient" where
  "Reset c = c\<lparr>closeWait := 0, once := Fresh, authed := False, isClosed := False,
               closeChan := False\<rparr>"

subsection \<open>Dial\<close>

text \<open>
  The dialer of the websocket library is a parameter: for an address it answers with an
  error (and then a nil connection, which the loop assigns all the same) or with a
  connection. \<open>Dial_loop\<close> is the \<open>for\<close> loop of \<open>Dial\<close>, carrying the variable \<open>err\<close>.
\<close>

type_synonym dialer = "string \<Rightarrow> error + conn"

fun Dial_loop :: "dialer \<Rightarrow> string list \<Rightarrow> error option \<Rightarrow> WsClient \<Rightarrow> error option \<times> WsClient" where
  "Dial_loop d [] err c = (err, c)"
| "Dial_loop d (link # links) err c =
     (case d link of
        Inl e \<Rightarrow>
          Dial_loop d links (Some e)
            (emit [DialerDial link,
                   Log Error ''websocket dial fail''
                     [slog_String ''link'' (Lit link), slog_String ''err'' (ErrorOf e)]]
               (c\<lparr>conn := None\<rparr>))
      | Inr k \<Rightarrow> (None, emit [DialerDial link] (c\<lparr>conn := Some k\<rparr>)))"

definition Dial :: "dialer \<Rightarrow> string list \<Rightarrow> WsClient \<Rightarrow> error option \<times> WsClient" where
  "Dial d links c =
     (case Dial_loop d links None c of
        (Some err, c') \<Rightarrow> (Some (Wrapf err ''websocket dial fail. links:%v'' [Links links]), c')
      | (None, c') \<Rightarrow> (None, emit [Log Info ''dial success'' []] c'))"

text \<open>The addresses the dialer was asked to connect to, in order.\<close>

fun dialed :: "effect list \<Rightarrow> string list" where
  "dialed [] = []"
| "dialed (DialerDial link # es) = link # dialed es"
| "dialed (_ # es) = dialed es"

subsection \<open>Steps of the goroutines\<close>

text \<open>
  The client's methods run in several goroutines at once. Each method below is its
  source function as a step function: given where the goroutine stands in the function
  (a label named after the source line it is about to execute) it performs that
  statement on the shared client. A step either panics (the process dies), is blocked
  (the goroutine waits and nothing changes) or yields the next label and client.
\<close>

datatype 'a outcome = Panic | Blocked | Next 'a

text \<open>
  What the codec of package proto provides: \<open>proto.UnpackMessage\<close>, and the message
  \<open>proto.PackMessage(proto.HeaderDefaultSequence, proto.OperationHeartbeat, nil)\<close>; and
  the language version of the module, which is not in client.go: from Go 1.22 on every
  iteration of a \<open>for\<close> loop has a variable of its own, before that the loop has one
  variable for all its iterations.
\<close>

record env =
  UnpackMessage :: "bytes \<Rightarrow> error + message list"
  Heartbeat :: message
  loopvar_per_iteration :: bool

subsubsection \<open>Close\<close>

datatype pc = L110 | L111 | L113 | L114 | L115 | L118 | L119 | L121 | L124 | L126
  | Returned "error option"

text \<open>A call of \<open>Close(t)\<close>: its label, its argument \<open>t\<close> and its result variable \<open>err\<close>.\<close>

datatype Close_call = Close_call (pc_of: pc) (t_of: int) (err_of: "error option")

text \<open>
  Line 111 and line 119 dereference \<open>conn\<close>, which is nil before a successful \<open>Dial\<close>.
  Line 111 calls \<open>conn.WriteMessage\<close> and drops the error it returns; what the call does
  is the input \<open>w\<close> of the step, which the other lines do not use. Line 114 closes the
  channel, which panics on a closed channel; line 118 waits for the counter of the wait
  group to reach zero. \<open>once.Do\<close> at line 113 runs the function for the first caller
  (lines 114 to 123, then the once is marked done at 124), blocks while another caller's
  function runs, and returns at once when it is done.
\<close>

fun Close :: "write_result \<Rightarrow> Close_call \<Rightarrow> WsClient \<Rightarrow> (Close_call \<times> WsClient) outcome" where
  "Close w (Close_call L110 t err) c =
     Next (Close_call L111 t err,
           emit [Log Info ''ws client close'' [slog_Int ''close_type'' t]] c)"
| "Close w (Close_call L111 t err) c =
     (case conn c of
        None \<Rightarrow> Panic
      | Some k \<Rightarrow>
          if w = Write_panic then Panic
          else Next (Close_call L113 t err,
                     emit [WriteMessage k CloseMessage (FormatCloseMessage CloseNormalClosure []) w] c))"
| "Close w (Close_call L113 t err) c =
     (case once c of
        Fresh \<Rightarrow> Next (Close_call L114 t err, c\<lparr>once := Running\<rparr>)
      | Running \<Rightarrow> Blocked
      | Done \<Rightarrow> Next (Close_call L126 t err, c))"
| "Close w (Close_call L114 t err) c =
     (if closeChan c then Panic else Next (Close_call L115 t err, c\<lparr>closeChan := True\<rparr>))"
| "Close w (Close_call L115 t err) c = Next (Close_call L118 t err, c\<lparr>isClosed := True\<rparr>)"
| "Close w (Close_call L118 t err) c =
     (if closeWait c = 0 then Next (Close_call L119 t err, c) else Blocked)"
| "Close w (Close_call L119 t err) c =
     (case conn c of
        None \<Rightarrow> Panic
      | Some k \<Rightarrow> Next (Close_call L121 t (close_result k), emit [ConnClose k] c))"
| "Close w (Close_call L121 t err) c =
     Next (Close_call L124 t err,
           case onClose c of None \<Rightarrow> c | Some cb \<Rightarrow> emit [OnCloseCall cb t] c)"
| "Close w (Close_call L124 t err) c = Next (Close_call L126 t err, c\<lparr>once := Done\<rparr>)"
| "Close w (Close_call L126 t err) c = Next (Close_call (Returned err) t err, c)"
| "Close w (Close_call (Returned r) t err) c = Blocked"

subsubsection \<open>SendMessage and SendHeartbeat\<close>

text \<open>\<open>w\<close> is what \<open>conn.WriteMessage\<close> does for this frame.\<close>

definition SendMessage ::
  "write_result \<Rightarrow> message \<Rightarrow> WsClient \<Rightarrow> (error option \<times> WsClient) outcome" where
  "SendMessage w msg c =
     (case conn c of
        None \<Rightarrow> Panic
      | Some k \<Rightarrow>
          (case w of
             Write_panic \<Rightarrow> Panic
           | Written \<Rightarrow> Next (None, emit [WriteMessage k BinaryMessage (ToBytes msg) w] c)
           | Refused err \<Rightarrow>
               Next (Some (Wrapf err ''send message fail. payload:%s'' [BytesArg (Payload msg)]),
                     emit [WriteMessage k BinaryMessage (ToBytes msg) w] c)))"

definition SendHeartbeat ::
  "env \<Rightarrow> write_result \<Rightarrow> WsClient \<Rightarrow> (error option \<times> WsClient) outcome" where
  "SendHeartbeat E w c = SendMessage w (Heartbeat E) c"

subsubsection \<open>The deferred exit of both loops\<close>

text \<open>\<open>closeWait.Done()\<close> panics when the counter is already zero.\<close>

definition loop_stop :: "string \<Rightarrow> WsClient \<Rightarrow> WsClient outcome" where
  "loop_stop msg c =
     (if closeWait c = 0 then Panic
      else Next ((emit [Log Info msg []] c)\<lparr>closeWait := closeWait c - 1\<rparr>))"

subsubsection \<open>eventLoop\<close>

text \<open>
  The \<open>select\<close> of line 170 takes one of its four cases; which one is ready is decided
  by the channels and by the runtime's timers, so the case taken is an input of the
  step. \<open>case_ticker\<close> carries what \<open>conn.WriteMessage\<close> does for the heartbeat.
\<close>

datatype select_case = case_closeChan | case_tr | case_ticker write_result | case_msgChan

text \<open>
  \<open>E170 ticker tr\<close> is the loop at its \<open>select\<close>: \<open>ticker\<close> is the period of the ticker
  in seconds, \<open>tr\<close> the duration of the timer in seconds until the value of its channel
  has been received, \<open>None\<close> afterwards (a timer fires once).
\<close>

datatype epc = E159 | E170 nat "nat option" | E163 | E_done

fun eventLoop :: "env \<Rightarrow> select_case option \<Rightarrow> epc \<Rightarrow> WsClient \<Rightarrow> (epc \<times> WsClient) outcome" where
  "eventLoop E None E159 c =
     Next (E170 15 (Some 10),
           (emit [Log Info ''ws event loop start'' []] c)\<lparr>closeWait := closeWait c + 1\<rparr>)"
| "eventLoop E (Some case_closeChan) (E170 ticker tr) c =
     (if closeChan c then Next (E163, c) else Blocked)"
| "eventLoop E (Some case_tr) (E170 ticker tr) c =
     (case tr of
        None \<Rightarrow> Blocked
      | Some _ \<Rightarrow>
          if \<not> authed c then Next (E163, emit [Log Error ''auth timeout'' []] c)
          else Next (E170 ticker None, c))"
| "eventLoop E (Some (case_ticker w)) (E170 ticker tr) c =
     (case SendHeartbeat E w (emit [Log Debug ''ws send heartbeat'' []] c) of
        Panic \<Rightarrow> Panic
      | Blocked \<Rightarrow> Blocked
      | Next (None, c') \<Rightarrow> Next (E170 ticker tr, c')
      | Next (Some err, c') \<Rightarrow>
          Next (E170 ticker tr,
                emit [Log Error ''send heartbeat fail'' [slog_String ''err'' (ErrorOf err)]] c'))"
| "eventLoop E (Some case_msgChan) (E170 ticker tr) c =
     (case msgChan c of
        [] \<Rightarrow> Blocked
      | None # q \<Rightarrow> Next (E170 ticker tr, c\<lparr>msgChan := q, msgVars := tl (msgVars c)\<rparr>)
      | Some msg # q \<Rightarrow>
          (case dispatcher c (Operation msg) of
             None \<Rightarrow> Next (E170 ticker tr, c\<lparr>msgChan := q, msgVars := tl (msgVars c)\<rparr>)
           | Some handle \<Rightarrow>
               (case handle msg of
                  None \<Rightarrow>
                    Next (E170 ticker tr,
                          emit [HandleCall (Operation msg) msg] (c\<lparr>msgChan := q, msgVars := tl (msgVars c)\<rparr>))
                | Some err \<Rightarrow>
                    Next (E170 ticker tr,
                          emit [HandleCall (Operation msg) msg,
                                Log Error ''handle msg fail'' [slog_String ''err'' (ErrorOf err)]]
                            (c\<lparr>msgChan := q, msgVars := tl (msgVars c)\<rparr>)))))"
| "eventLoop E None E163 c =
     (case loop_stop ''ws event loop stop'' c of
        Panic \<Rightarrow> Panic | Blocked \<Rightarrow> Blocked | Next c' \<Rightarrow> Next (E_done, c'))"
| "eventLoop E _ _ c = Blocked"

subsubsection \<open>readMessage\<close>

text \<open>
  \<open>R209\<close> is the loop at \<open>conn.ReadMessage()\<close>, which dereferences \<open>conn\<close>; the result
  \<open>(msgType, buf, err)\<close> of the call is the input of the step. \<open>R232 v msgs\<close> is the head of
  the inner loop with the elements \<open>msgs\<close> still to come, and \<open>R233 v msg msgs\<close> its body,
  about to send the address of the loop variable, which is the variable \<open>v\<close> and holds
  \<open>msg\<close>. When the loop has one variable for all iterations, the head assigns the next
  element to it, and every pointer to it that is still queued reads that element from
  then on (\<open>assign_var\<close>); otherwise the head takes a new variable. The send waits while
  the channel holds 1024 elements. The second component of a step's result is the
  argument of the \<open>Close\<close> call the step starts in a new goroutine, if it starts one.
\<close>

fun assign_var :: "nat \<Rightarrow> message \<Rightarrow> nat list \<Rightarrow> message option list \<Rightarrow> message option list" where
  "assign_var v msg (u # us) (x # xs) = (if u = v then Some msg else x) # assign_var v msg us xs"
| "assign_var v msg us xs = xs"

datatype rpc = R200 | R209 | R232 nat "message list" | R233 nat message "message list" | R203 | R_done

fun readMessage ::
  "env \<Rightarrow> (int \<times> bytes \<times> error option) option \<Rightarrow> rpc \<Rightarrow> WsClient
     \<Rightarrow> (rpc \<times> int option \<times> WsClient) outcome" where
  "readMessage E None R200 c =
     Next (R209, None,
           (emit [Log Info ''ws read message start'' []] c)\<lparr>closeWait := closeWait c + 1\<rparr>)"
| "readMessage E inp R209 c =
     (case conn c of
        None \<Rightarrow> Panic
      | Some k \<Rightarrow>
          (case inp of
             None \<Rightarrow> Blocked
           | Some (msgType, buf, Some err) \<Rightarrow>
               if \<not> isClosed c then
                 Next (R203, Some CloseReadingConnError,
                       emit [Log Error ''read message fail''
                               [slog_String ''err''
                                  (ErrorOf (Wrapf err ''msg_type:%d'' [IntArg msgType]))]] c)
               else Next (R203, None, c)
           | Some (msgType, buf, None) \<Rightarrow>
               if msgType = CloseMessage then
                 Next (R203, Some CloseReceivedShutdownMessage,
                       emit [Log Info ''received shutdown message''
                               [slog_Int ''msg_type'' msgType]] c)
               else if msgType = PongMessage \<or> msgType = PingMessage then
                 Next (R209, None,
                       emit [Log Debug ''read message''
                               [slog_String ''msg_type'' (Lit ''ping/pong'')]] c)
               else
                 (case UnpackMessage E buf of
                    Inl err \<Rightarrow>
                      Next (R209, None,
                            emit [Log Error ''unpack message fail''
                                    [slog_String ''err'' (ErrorOf err)]] c)
                  | Inr msgList \<Rightarrow>
                      Next (R232 (nextVar c) msgList, None, c\<lparr>nextVar := nextVar c + 1\<rparr>))))"
| "readMessage E None (R232 v []) c = Next (R209, None, c)"
| "readMessage E None (R232 v (msg # msgs)) c =
     (if loopvar_per_iteration E then
        Next (R233 (nextVar c) msg msgs, None, c\<lparr>nextVar := nextVar c + 1\<rparr>)
      else
        Next (R233 v msg msgs, None, c\<lparr>msgChan := assign_var v msg (msgVars c) (msgChan c)\<rparr>))"
| "readMessage E None (R233 v msg msgs) c =
     (if length (msgChan c) < 1024 then
        Next (R232 v msgs, None,
              c\<lparr>msgChan := msgChan c @ [Some msg], msgVars := msgVars c @ [v]\<rparr>)
      else Blocked)"
| "readMessage E None R203 c =
     (case loop_stop ''ws read message stop'' c of
        Panic \<Rightarrow> Panic | Blocked \<Rightarrow> Blocked | Next c' \<Rightarrow> Next (R_done, None, c'))"
| "readMessage E _ _ c = Blocked"

subsection \<open>The running program\<close>

text \<open>
  The client, the calls of \<open>Close\<close> in flight or returned, and the two kinds of loops
  started by \<open>Run\<close>. An action is what happens next: a caller starts a call, or one
  goroutine takes one step. After a panic nothing happens any more.
\<close>

record sys =
  client :: WsClient
  closers :: "Close_call list"
  readers :: "rpc list"
  evloops :: "epc list"
  panicked :: bool

datatype action =
    Call_Close int
  | Call_AuthSuccess
  | Call_Run
  | Close_step nat write_result
  | readMessage_step nat "(int \<times> bytes \<times> error option) option"
  | eventLoop_step nat "select_case option"

fun step :: "env \<Rightarrow> action \<Rightarrow> sys \<Rightarrow> sys" where
  "step E (Call_Close t) s = s\<lparr>closers := closers s @ [Close_call L110 t None]\<rparr>"
| "step E Call_AuthSuccess s = s\<lparr>client := AuthSuccess (client s)\<rparr>"
| "step E Call_Run s = s\<lparr>readers := readers s @ [R200], evloops := evloops s @ [E159]\<rparr>"
| "step E (Close_step i w) s =
     (if i < length (closers s) then
        (case Close w (closers s ! i) (client s) of
           Panic \<Rightarrow> s\<lparr>panicked := True\<rparr>
         | Blocked \<Rightarrow> s
         | Next (th, c) \<Rightarrow> s\<lparr>client := c, closers := (closers s)[i := th]\<rparr>)
      else s)"
| "step E (readMessage_step i inp) s =
     (if i < length (readers s) then
        (case readMessage E inp (readers s ! i) (client s) of
           Panic \<Rightarrow> s\<lparr>panicked := True\<rparr>
         | Blocked \<Rightarrow> s
         | Next (r, go, c) \<Rightarrow>
             s\<lparr>client := c, readers := (readers s)[i := r],
               closers := closers s @ (case go of None \<Rightarrow> [] | Some t \<Rightarrow> [Close_call L110 t None])\<rparr>)
      else s)"
| "step E (eventLoop_step i sel) s =
     (if i < length (evloops s) then
        (case eventLoop E sel (evloops s ! i) (client s) of
           Panic \<Rightarrow> s\<lparr>panicked := True\<rparr>
         | Blocked \<Rightarrow> s
         | Next (e, c) \<Rightarrow> s\<lparr>client := c, evloops := (evloops s)[i := e]\<rparr>)
      else s)"

fun run :: "env \<Rightarrow> action list \<Rightarrow> sys \<Rightarrow> sys" where
  "run E [] s = s"
| "run E (a # as) s = (if panicked s then s else run E as (step E a s))"

text \<open>A program with the given client in which no goroutine of the client runs yet.\<close>

definition idle :: "WsClient \<Rightarrow> sys" where
  "idle c = \<lparr>client = c, closers = [], readers = [], evloops = [], panicked = False\<rparr>"

subsection \<open>Observations on the recorded effects\<close>

fun is_ConnClose :: "effect \<Rightarrow> bool" where
  "is_ConnClose (ConnClose k) = True"
| "is_ConnClose _ = False"

fun is_OnCloseCall :: "effect \<Rightarrow> bool" where
  "is_OnCloseCall (OnCloseCall cb t) = True"
| "is_OnCloseCall _ = False"

fun is_close_write :: "effect \<Rightarrow> bool" where
  "is_close_write (WriteMessage k ty d w) = (ty = CloseMessage)"
| "is_close_write _ = False"

fun is_HandleCall :: "effect \<Rightarrow> bool" where
  "is_HandleCall (HandleCall opc m) = True"
| "is_HandleCall _ = False"

text \<open>
  The physical closes, the callbacks and the calls of \<open>conn.WriteMessage\<close> with a close
  frame among the recorded effects.
\<close>

definition closed_conns :: "WsClient \<Rightarrow> effect list" where
  "closed_conns c = filter is_ConnClose (effects c)"

definition close_calls :: "WsClient \<Rightarrow> effect list" where
  "close_calls c = filter is_OnCloseCall (effects c)"

definition close_writes :: "WsClient \<Rightarrow> effect list" where
  "close_writes c = filter is_close_write (effects c)"

text \<open>The part of the client that only \<open>Close\<close> changes.\<close>

definition guarded_part ::
  "WsClient \<Rightarrow> once_state \<times> conn option \<times> callback option \<times> bool \<times> bool \<times> effect list \<times> effect list" where
  "guarded_part c = (once c, conn c, onClose c, closeChan c, isClosed c, closed_conns c, close_calls c)"

text \<open>
  The labels inside the function passed to \<open>once.Do\<close>, and the labels after \<open>once.Do\<close>
  has returned. \<open>body\<close> are the calls inside the function, \<open>finished\<close> the calls that are
  back from \<open>once.Do\<close> (at the \<open>return\<close> or returned).
\<close>

fun in_body :: "pc \<Rightarrow> bool" where
  "in_body L114 = True" | "in_body L115 = True" | "in_body L118 = True"
| "in_body L119 = True" | "in_body L121 = True" | "in_body L124 = True"
| "in_body _ = False"

fun past_once :: "pc \<Rightarrow> bool" where
  "past_once L126 = True" | "past_once (Returned r) = True" | "past_once _ = False"

definition body :: "sys \<Rightarrow> Close_call list" where
  "body s = filter (\<lambda>th. in_body (pc_of th)) (closers s)"

definition finished :: "sys \<Rightarrow> Close_call list" where
  "finished s = filter (\<lambda>th. past_once (pc_of th)) (closers s)"

text \<open>
  What the function of \<open>once.Do\<close> records when it closes the connection and when it
  calls the callback with close type \<open>t\<close>.
\<close>

definition physical :: "WsClient \<Rightarrow> effect list" where
  "physical c = (case conn c of None \<Rightarrow> [] | Some k \<Rightarrow> [ConnClose k])"

definition notify :: "WsClient \<Rightarrow> int \<Rightarrow> effect list" where
  "notify c t = (case onClose c of None \<Rightarrow> [] | Some cb \<Rightarrow> [OnCloseCall cb t])"

text \<open>
  The non-nil values of the result variable \<open>err\<close> over all calls; what the connection's
  \<open>Close()\<close> returns, and that result when it is not nil.
\<close>

definition close_error :: "WsClient \<Rightarrow> error option" where
  "close_error c = (case conn c of None \<Rightarrow> None | Some k \<Rightarrow> close_result k)"

definition errs :: "sys \<Rightarrow> error option list" where
  "errs s = filter (\<lambda>r. r \<noteq> None) (map err_of (closers s))"

definition reported :: "WsClient \<Rightarrow> error option list" where
  "reported c =
     (case conn c of
        None \<Rightarrow> []
      | Some k \<Rightarrow> (case close_result k of None \<Rightarrow> [] | Some e \<Rightarrow> [Some e]))"

text \<open>
  The invariant of the once guard, relative to the physical closes \<open>bc\<close> and the callbacks
  \<open>bo\<close> recorded before the guard was first used. While the once is fresh no call is
  inside or past it; while it runs exactly one call is inside, and the effects recorded
  so far are those of the lines that call has passed; when it is done they are all
  recorded, once.
\<close>

definition guard_inv :: "effect list \<Rightarrow> effect list \<Rightarrow> sys \<Rightarrow> bool" where
  "guard_inv bc bo s =
     (case once (client s) of
        Fresh \<Rightarrow>
          body s = [] \<and> finished s = [] \<and> \<not> closeChan (client s) \<and> errs s = [] \<and>
          closed_conns (client s) = bc \<and> close_calls (client s) = bo
      | Running \<Rightarrow>
          finished s = [] \<and> length (body s) = 1 \<and>
          closeChan (client s) = (pc_of (hd (body s)) \<noteq> L114) \<and>
          (if pc_of (hd (body s)) \<in> {L121, L124}
           then conn (client s) \<noteq> None \<and> closed_conns (client s) = bc @ physical (client s) \<and>
                errs s = reported (client s) \<and> err_of (hd (body s)) = close_error (client s)
           else closed_conns (client s) = bc \<and> errs s = []) \<and>
          close_calls (client s) =
            bo @ (if pc_of (hd (body s)) = L124 then notify (client s) (t_of (hd (body s))) else [])
      | Done \<Rightarrow>
          body s = [] \<and> conn (client s) \<noteq> None \<and> closeChan (client s) \<and>
          errs s = reported (client s) \<and>
          closed_conns (client s) = bc @ physical (client s) \<and>
          (\<exists>t\<in>set (map t_of (finished s)). close_calls (client s) = bo @ notify (client s) t))"

text \<open>
  The start of a connection lifetime: the once is fresh, the close channel is open, and
  the calls of \<open>Close\<close> already made, if any, have not executed anything yet.
\<close>

definition armed :: "sys \<Rightarrow> bool" where
  "armed s \<longleftrightarrow>
     once (client s) = Fresh \<and> \<not> closeChan (client s) \<and>
     (\<forall>th\<in>set (closers s). pc_of th = L110 \<and> err_of th = None)"

text \<open>The labels after line 111, where \<open>conn.WriteMessage\<close> is called with the close frame.\<close>

fun wrote :: "pc \<Rightarrow> bool" where
  "wrote L110 = False" | "wrote L111 = False" | "wrote _ = True"

text \<open>
  A concrete client for the examples: the first address refuses the connection, the second
  accepts; closing that connection fails. The handler of operation 5 succeeds, the handler
  of operation 7 fails, and the codec unpacks every byte of a frame into one message with
  that byte as its operation code. \<open>close_once\<close> is a call of \<open>Close\<close> run to its return,
  its close frame written; \<open>close_again\<close> is a second call started afterwards and run to
  its return, its write refused by the library.
\<close>

definition demo_handlers :: "32 word \<rightharpoonup> DispatcherHandle" where
  "demo_handlers = [5 \<mapsto> (\<lambda>msg. None), 7 \<mapsto> (\<lambda>msg. Some (ErrorString ''bad payload''))]"

definition demo_dialer :: dialer where
  "demo_dialer link =
     (if link = ''wss://b''
      then Inr \<lparr>address = link, close_result = Some (ErrorString ''close failed'')\<rparr>
      else Inl (ErrorString ''connection refused''))"

definition demo_env :: env where
  "demo_env = \<lparr>UnpackMessage = (\<lambda>buf. Inr (map (\<lambda>b. \<lparr>Operation = ucast b, Payload = [b]\<rparr>) buf)),
               Heartbeat = \<lparr>Operation = 2, Payload = []\<rparr>,
               loopvar_per_iteration = False\<rparr>"

definition demo_client :: WsClient where
  "demo_client =
     snd (Dial demo_dialer [''wss://a'', ''wss://b''] (WithOnClose (Some ''cb'') (NewWsClient (Some demo_handlers) 0)))"

definition close_once :: "action list" where
  "close_once =
     [Call_Close CloseActively,
      Close_step 0 Written, Close_step 0 Written, Close_step 0 Written, Close_step 0 Written,
      Close_step 0 Written, Close_step 0 Written, Close_step 0 Written, Close_step 0 Written,
      Close_step 0 Written, Close_step 0 Written]"

definition close_sent :: write_result where
  "close_sent = Refused (ErrorString ''websocket: close sent'')"

definition close_again :: "action list" where
  "close_again =
     [Call_Close CloseActively,
      Close_step 1 close_sent, Close_step 1 close_sent, Close_step 1 close_sent,
      Close_step 1 close_sent]"

text \<open>The fields no goroutine of the running program assigns.\<close>

definition fixed_part ::
  "WsClient \<Rightarrow> conn option \<times> callback option \<times> (32 word \<rightharpoonup> DispatcherHandle) \<times> nat" where
  "fixed_part c = (conn c, onClose c, dispatcher c, logger c)"

text \<open>Every call that is past line 111 has called \<open>conn.WriteMessage\<close> with a close frame once.\<close>

definition writes_inv :: "nat \<Rightarrow> sys \<Rightarrow> bool" where
  "writes_inv f s \<longleftrightarrow>
     length (close_writes (client s)) = f + length (filter (\<lambda>th. wrote (pc_of th)) (closers s))"

text \<open>A returned call returned the value of its variable \<open>err\<close>.\<close>

fun result_ok :: "Close_call \<Rightarrow> bool" where
  "result_ok (Close_call (Returned r) t err) = (r = err)"
| "result_ok _ = True"

text \<open>
  Following claim C7: what dispatching the queued elements records. A nil element and a
  message whose operation code is not in the table record nothing; a message whose
  operation code is in the table records the call of its handler, followed by one error
  log line when the handler returns an error.
\<close>

fun dispatch :: "(32 word \<rightharpoonup> DispatcherHandle) \<Rightarrow> message option list \<Rightarrow> effect list" where
  "dispatch D [] = []"
| "dispatch D (None # q) = dispatch D q"
| "dispatch D (Some msg # q) =
     (case D (Operation msg) of
        None \<Rightarrow> []
      | Some handle \<Rightarrow>
          HandleCall (Operation msg) msg #
          (case handle msg of
             None \<Rightarrow> []
           | Some err \<Rightarrow> [Log Error ''handle msg fail'' [slog_String ''err'' (ErrorOf err)]]))
     @ dispatch D q"

text \<open>Actions other than a new call of \<open>Close\<close> from outside and a new \<open>Run\<close>.\<close>

fun quiet :: "action \<Rightarrow> bool" where
  "quiet (Call_Close t) = False"
| "quiet Call_Run = False"
| "quiet _ = True"

text \<open>A reader that has left its loop: at its deferred function, or gone.\<close>

fun left_loop :: "rpc \<Rightarrow> bool" where
  "left_loop R203 = True"
| "left_loop R_done = True"
| "left_loop _ = False"

text \<open>
  The example program after \<open>Run\<close>, both loops entered. In \<open>peer_close_run\<close> a close frame
  of the peer then arrives, and the call of \<open>Close\<close> that the reader starts runs to its
  return, the event loop leaving at the close signal; the library, which has answered the
  close frame of the peer with its own, refuses the write of that call.
\<close>

definition started :: sys where
  "started = run demo_env [Call_Run, readMessage_step 0 None, eventLoop_step 0 None] (idle demo_client)"

definition peer_close_run :: "action list" where
  "peer_close_run =
     [readMessage_step 0 (ReadMessage (Close_frame 1000 [])), readMessage_step 0 None,
      Close_step 0 close_sent, Close_step 0 close_sent, Close_step 0 close_sent, Close_step 0 close_sent,
      Close_step 0 close_sent,
      eventLoop_step 0 (Some case_closeChan), eventLoop_step 0 None,
      Close_step 0 close_sent, Close_step 0 close_sent, Close_step 0 close_sent, Close_step 0 close_sent,
      Close_step 0 close_sent]"

text \<open>
  \<open>feed buf\<close>: a binary frame arrives and the reader unpacks it and sends its one message
  on \<open>msgChan\<close>. In \<open>loaded\<close> three such frames have arrived after the start.
\<close>

definition feed :: "bytes \<Rightarrow> action list" where
  "feed buf =
     [readMessage_step 0 (ReadMessage (Binary_frame buf)), readMessage_step 0 None,
      readMessage_step 0 None, readMessage_step 0 None]"

definition loaded :: sys where
  "loaded = run demo_env (feed [5] @ feed [9] @ feed [7]) started"

text \<open>
  Two calls of \<open>Close\<close> at the same time while both loops run. Both write at line 111, the
  second write is refused; the second call wins the once, closes the close channel and waits
  at line 118; the event loop leaves at the close signal, the reader leaves when the
  close frame of the peer arrives; then the second call finishes the teardown and both
  calls return.
\<close>

definition concurrent_close :: "action list" where
  "concurrent_close =
     [Call_Close CloseActively, Call_Close CloseActively,
      Close_step 0 Written, Close_step 1 close_sent, Close_step 0 Written, Close_step 1 close_sent,
      Close_step 1 close_sent, Close_step 0 Written,
      Close_step 1 close_sent, Close_step 1 close_sent, Close_step 1 close_sent,
      eventLoop_step 0 (Some case_closeChan), eventLoop_step 0 None,
      readMessage_step 0 (ReadMessage (Close_frame 1000 [])), readMessage_step 0 None,
      Close_step 1 close_sent, Close_step 1 close_sent, Close_step 1 close_sent,
      Close_step 1 close_sent, Close_step 1 close_sent,
      Close_step 0 Written, Close_step 0 Written]"

text \<open>
  A lifetime in which the teardown never happens. 1024 frames arrive while the event loop
  is not scheduled, so \<open>msgChan\<close> is full, and the reader waits at line 233 with the message
  of one more frame. Then \<open>Close\<close> is called: it closes the close channel and waits at line
  118 for both loops; the event loop leaves at the close signal. In that state
  (\<open>deadlocked\<close>) the reader waits for room on the channel, which no goroutine makes any
  more, and every call of \<open>Close\<close> waits for the reader or for the once.
\<close>

definition jam :: "action list" where
  "jam =
     concat (replicate 1024 (feed [5])) @
     [readMessage_step 0 (ReadMessage (Binary_frame [5])), readMessage_step 0 None]"

definition stuck :: sys where
  "stuck =
     run demo_env
       (jam @
        [Call_Close CloseActively,
         Close_step 0 Written, Close_step 0 Written, Close_step 0 Written, Close_step 0 Written,
         Close_step 0 Written,
         eventLoop_step 0 (Some case_closeChan), eventLoop_step 0 None])
       started"

fun no_Run :: "action \<Rightarrow> bool" where
  "no_Run Call_Run = False"
| "no_Run _ = True"

fun stuck_reader :: "rpc \<Rightarrow> bool" where
  "stuck_reader (R233 v msg msgs) = True"
| "stuck_reader R_done = True"
| "stuck_reader _ = False"

fun waiting :: "pc \<Rightarrow> bool" where
  "waiting L110 = True"
| "waiting L111 = True"
| "waiting L113 = True"
| "waiting L118 = True"
| "waiting _ = False"

definition deadlocked :: "sys \<Rightarrow> bool" where
  "deadlocked s \<longleftrightarrow>
     once (client s) = Running \<and> closeWait (client s) \<noteq> 0 \<and>
     \<not> length (msgChan (client s)) < 1024 \<and>
     list_all stuck_reader (readers s) \<and>
     list_all (\<lambda>e. e = E_done) (evloops s) \<and>
     list_all (\<lambda>th. waiting (pc_of th)) (closers s)"

section \<open>Properties\<close>

subsection \<open>Filtering a list updated at one index\<close>

lemma filter_update_split:
  "i < length xs \<Longrightarrow>
   filter P (xs[i := y]) = filter P (take i xs) @ (if P y then [y] else []) @ filter P (drop (Suc i) xs)"
  by (simp add: upd_conv_take_nth_drop)

lemma filter_nth_split:
  assumes "i < length xs"
  shows "filter P xs = filter P (take i xs) @ (if P (xs ! i) then [xs ! i] else []) @ filter P (drop (Suc i) xs)"
proof -
  have "xs = take i xs @ xs ! i # drop (Suc i) xs" using assms by (rule id_take_nth_drop)
  then have "filter P xs = filter P (take i xs @ xs ! i # drop (Suc i) xs)" by simp
  then show ?thesis by simp
qed

lemma filter_update_same:
  "i < length xs \<Longrightarrow> \<not> P (xs ! i) \<Longrightarrow> \<not> P y \<Longrightarrow> filter P (xs[i := y]) = filter P xs"
  using filter_update_split [of i xs P y] filter_nth_split [of i xs P] by simp

lemma filter_update_enter:
  "i < length xs \<Longrightarrow> filter P xs = [] \<Longrightarrow> P y \<Longrightarrow> filter P (xs[i := y]) = [y]"
  using filter_update_split [of i xs P y] filter_nth_split [of i xs P] by (simp split: if_splits)

lemma filter_update_within:
  "i < length xs \<Longrightarrow> length (filter P xs) = 1 \<Longrightarrow> P (xs ! i) \<Longrightarrow> P y \<Longrightarrow> filter P (xs[i := y]) = [y]"
  using filter_update_split [of i xs P y] filter_nth_split [of i xs P] by simp

lemma filter_update_leave:
  "i < length xs \<Longrightarrow> length (filter P xs) = 1 \<Longrightarrow> P (xs ! i) \<Longrightarrow> \<not> P y \<Longrightarrow> filter P (xs[i := y]) = []"
  using filter_update_split [of i xs P y] filter_nth_split [of i xs P] by simp

lemma filter_single_nth:
  "i < length xs \<Longrightarrow> length (filter P xs) = 1 \<Longrightarrow> P (xs ! i) \<Longrightarrow> hd (filter P xs) = xs ! i"
  using filter_nth_split [of i xs P] by (cases "filter P (take i xs)") simp_all

lemma filter_empty_nth:
  "i < length xs \<Longrightarrow> filter P xs = [] \<Longrightarrow> \<not> P (xs ! i)"
  by (auto simp: filter_empty_conv)

lemma length_filter_update:
  "i < length xs \<Longrightarrow>
   length (filter P (xs[i := y])) + (if P (xs ! i) then 1 else 0) =
   length (filter P xs) + (if P y then 1 else 0)"
  using filter_update_split [of i xs P y] filter_nth_split [of i xs P] by simp

subsection \<open>The loops leave the guarded part of the client alone\<close>

lemma readMessage_guarded_part:
  "readMessage E inp r c = Next (r', go, c') \<Longrightarrow>
   guarded_part c' = guarded_part c \<and> close_writes c' = close_writes c"
  by (induction E inp r c rule: readMessage.induct)
     (auto simp: guarded_part_def emit_def loop_stop_def closed_conns_def close_calls_def close_writes_def
           split: if_splits sum.splits option.splits prod.splits)

lemma eventLoop_guarded_part:
  "eventLoop E sel e c = Next (e', c') \<Longrightarrow>
   guarded_part c' = guarded_part c \<and> close_writes c' = close_writes c"
  by (induction E sel e c rule: eventLoop.induct)
     (auto simp: guarded_part_def emit_def loop_stop_def closed_conns_def close_calls_def close_writes_def
                 SendHeartbeat_def SendMessage_def BinaryMessage_def CloseMessage_def
           split: if_splits sum.splits option.splits list.splits write_result.splits)

subsection \<open>The invariant of the once guard\<close>

lemma map_update_same:
  "i < length xs \<Longrightarrow> f y = f (xs ! i) \<Longrightarrow> map f (xs[i := y]) = map f xs"
  by (simp add: map_update list_update_same_conv)

lemma guard_inv_cong:
  "body s' = body s \<Longrightarrow> finished s' = finished s \<Longrightarrow> errs s' = errs s \<Longrightarrow>
   guarded_part (client s') = guarded_part (client s) \<Longrightarrow> guard_inv bc bo s' = guard_inv bc bo s"
  by (simp add: guard_inv_def guarded_part_def physical_def notify_def reported_def close_error_def
           cong: once_state.case_cong)

lemma guard_inv_Close:
  assumes inv: "guard_inv bc bo s" and i: "i < length (closers s)"
    and st: "Close w (closers s ! i) (client s) = Next (th', c')"
  shows "guard_inv bc bo (s\<lparr>client := c', closers := (closers s)[i := th']\<rparr>)"
proof -
  obtain p t e where th: "closers s ! i = Close_call p t e" by (cases "closers s ! i")
  let ?B = "\<lambda>th. in_body (pc_of th)" and ?F = "\<lambda>th. past_once (pc_of th)"
  let ?s' = "s\<lparr>client := c', closers := (closers s)[i := th']\<rparr>"
  note upd = filter_update_same [OF i, of _ th'] filter_update_enter [OF i, of _ th']
    filter_update_within [OF i, of _ th'] filter_update_leave [OF i, of _ th']
  have hdB: "length (body s) = 1 \<Longrightarrow> in_body p \<Longrightarrow> hd (body s) = Close_call p t e"
    using filter_single_nth [OF i, of ?B] th by (simp add: body_def)
  have nB: "body s = [] \<Longrightarrow> \<not> in_body p"
    using filter_empty_nth [OF i, of ?B] th by (simp add: body_def)
  have eS: "err_of th' = e \<Longrightarrow> errs ?s' = errs s"
    using map_update_same [OF i, of err_of th'] th by (simp add: errs_def)
  have nF: "finished s = [] \<Longrightarrow> \<not> past_once p"
    using filter_empty_nth [OF i, of ?F] th by (simp add: finished_def)
  show ?thesis
  proof (cases p)
    case L110
    with st th have "th' = Close_call L111 t e" "guarded_part c' = guarded_part (client s)"
      by (auto simp: guarded_part_def emit_def closed_conns_def close_calls_def close_writes_def)
    moreover from this L110 th have "body ?s' = body s" "finished ?s' = finished s" "errs ?s' = errs s"
      using upd(1) [of ?B] upd(1) [of ?F] eS by (simp_all add: body_def finished_def)
    ultimately show ?thesis using inv guard_inv_cong [of ?s' s] by simp
  next
    case L111
    with st th have "th' = Close_call L113 t e" "guarded_part c' = guarded_part (client s)"
      by (auto simp: guarded_part_def emit_def closed_conns_def close_calls_def close_writes_def
               split: option.splits if_splits)
    moreover from this L111 th have "body ?s' = body s" "finished ?s' = finished s" "errs ?s' = errs s"
      using upd(1) [of ?B] upd(1) [of ?F] eS by (simp_all add: body_def finished_def)
    ultimately show ?thesis using inv guard_inv_cong [of ?s' s] by simp
  next
    case L113
    show ?thesis
    proof (cases "once (client s)")
      case Fresh
      with st th L113 have r: "th' = Close_call L114 t e" "c' = (client s)\<lparr>once := Running\<rparr>" by auto
      from inv Fresh have b: "body s = []" "finished s = []" by (simp_all add: guard_inv_def)
      have "body ?s' = [th']" using upd(2) [of ?B] b r by (simp add: body_def)
      moreover have "finished ?s' = []" using upd(1) [of ?F] b r th L113 by (simp add: finished_def)
      ultimately show ?thesis using inv Fresh r eS
        by (simp add: guard_inv_def closed_conns_def close_calls_def)
    next
      case Running
      with st th L113 show ?thesis by simp
    next
      case Done
      with st th L113 have r: "th' = Close_call L126 t e" "c' = client s" by auto
      have "body ?s' = body s" using upd(1) [of ?B] r th L113 by (simp add: body_def)
      moreover have "set (map t_of (finished s)) \<subseteq> set (map t_of (finished ?s'))"
        using filter_update_split [OF i, of ?F th'] filter_nth_split [OF i, of ?F] r th L113
        by (auto simp: finished_def)
      moreover from inv Done obtain t0 where "t0 \<in> set (map t_of (finished s))"
        "close_calls (client s) = bo @ notify (client s) t0"
        by (auto simp: guard_inv_def)
      ultimately have "\<exists>t\<in>set (map t_of (finished ?s')). close_calls (client s) = bo @ notify (client s) t"
        "body ?s' = body s"
        by blast+
      then show ?thesis using inv Done r eS
        by (simp add: guard_inv_def closed_conns_def close_calls_def physical_def notify_def reported_def)
    qed
  next
    case L114
    from inv nB nF L114 have o: "once (client s) = Running"
      by (cases "once (client s)") (auto simp: guard_inv_def)
    with inv have b: "length (body s) = 1" "finished s = []" by (simp_all add: guard_inv_def)
    from th L114 hdB b have h: "hd (body s) = Close_call L114 t e" by simp
    with inv o have "\<not> closeChan (client s)" by (simp add: guard_inv_def)
    with st th L114 have r: "th' = Close_call L115 t e" "c' = (client s)\<lparr>closeChan := True\<rparr>" by auto
    have "body ?s' = [th']" using upd(3) [of ?B] b r th L114 by (simp add: body_def)
    moreover have "finished ?s' = []" using upd(1) [of ?F] b r th L114 by (simp add: finished_def)
    ultimately show ?thesis using inv o r h eS
      by (simp add: guard_inv_def closed_conns_def close_calls_def)
  next
    case L115
    from inv nB nF L115 have o: "once (client s) = Running"
      by (cases "once (client s)") (auto simp: guard_inv_def)
    with inv have b: "length (body s) = 1" "finished s = []" by (simp_all add: guard_inv_def)
    from th L115 hdB b have h: "hd (body s) = Close_call L115 t e" by simp
    from st th L115 have r: "th' = Close_call L118 t e" "c' = (client s)\<lparr>isClosed := True\<rparr>" by auto
    have "body ?s' = [th']" using upd(3) [of ?B] b r th L115 by (simp add: body_def)
    moreover have "finished ?s' = []" using upd(1) [of ?F] b r th L115 by (simp add: finished_def)
    ultimately show ?thesis using inv o r h eS
      by (simp add: guard_inv_def closed_conns_def close_calls_def)
  next
    case L118
    from inv nB nF L118 have o: "once (client s) = Running"
      by (cases "once (client s)") (auto simp: guard_inv_def)
    with inv have b: "length (body s) = 1" "finished s = []" by (simp_all add: guard_inv_def)
    from th L118 hdB b have h: "hd (body s) = Close_call L118 t e" by simp
    from st th L118 have r: "th' = Close_call L119 t e" "c' = client s" by (auto split: if_splits)
    have "body ?s' = [th']" using upd(3) [of ?B] b r th L118 by (simp add: body_def)
    moreover have "finished ?s' = []" using upd(1) [of ?F] b r th L118 by (simp add: finished_def)
    ultimately show ?thesis using inv o r h eS
      by (simp add: guard_inv_def closed_conns_def close_calls_def)
  next
    case L119
    from inv nB nF L119 have o: "once (client s) = Running"
      by (cases "once (client s)") (auto simp: guard_inv_def)
    with inv have b: "length (body s) = 1" "finished s = []" by (simp_all add: guard_inv_def)
    from th L119 hdB b have h: "hd (body s) = Close_call L119 t e" by simp
    from st th L119 obtain k where r: "conn (client s) = Some k"
      "th' = Close_call L121 t (close_result k)" "c' = emit [ConnClose k] (client s)"
      by (auto split: option.splits)
    have "body ?s' = [th']" using upd(3) [of ?B] b r th L119 by (simp add: body_def)
    moreover have "finished ?s' = []" using upd(1) [of ?F] b r th L119 by (simp add: finished_def)
    moreover from inv o h have e0: "errs s = []" by (simp add: guard_inv_def)
    have "errs ?s' = reported (client s)"
    proof -
      let ?N = "\<lambda>r::error option. r \<noteq> None"
      have j: "i < length (map err_of (closers s))" using i by simp
      have "filter ?N ((map err_of (closers s))[i := close_result k]) =
            (if close_result k = None then [] else [close_result k])"
        using filter_update_enter [OF j, of ?N "close_result k"]
              filter_update_same [OF j, of ?N "close_result k"]
              filter_empty_nth [OF j, of ?N] e0
        by (simp add: errs_def)
      then show ?thesis using r by (auto simp: errs_def map_update reported_def)
    qed
    ultimately show ?thesis using inv o r h
      by (simp add: guard_inv_def closed_conns_def close_calls_def emit_def physical_def reported_def
            close_error_def)
  next
    case L121
    from inv nB nF L121 have o: "once (client s) = Running"
      by (cases "once (client s)") (auto simp: guard_inv_def)
    with inv have b: "length (body s) = 1" "finished s = []" by (simp_all add: guard_inv_def)
    from th L121 hdB b have h: "hd (body s) = Close_call L121 t e" by simp
    from st th L121 have r: "th' = Close_call L124 t e"
      "c' = (case onClose (client s) of None \<Rightarrow> client s | Some cb \<Rightarrow> emit [OnCloseCall cb t] (client s))"
      by auto
    have "body ?s' = [th']" using upd(3) [of ?B] b r th L121 by (simp add: body_def)
    moreover have "finished ?s' = []" using upd(1) [of ?F] b r th L121 by (simp add: finished_def)
    ultimately show ?thesis using inv o r h eS
      by (auto simp: guard_inv_def closed_conns_def close_calls_def emit_def physical_def notify_def
                     reported_def close_error_def
               split: option.splits)
  next
    case L124
    from inv nB nF L124 have o: "once (client s) = Running"
      by (cases "once (client s)") (auto simp: guard_inv_def)
    with inv have b: "length (body s) = 1" "finished s = []" by (simp_all add: guard_inv_def)
    from th L124 hdB b have h: "hd (body s) = Close_call L124 t e" by simp
    from st th L124 have r: "th' = Close_call L126 t e" "c' = (client s)\<lparr>once := Done\<rparr>" by auto
    have "body ?s' = []" using upd(4) [of ?B] b r th L124 by (simp add: body_def)
    moreover have "finished ?s' = [th']" using upd(2) [of ?F] b r th L124 by (simp add: finished_def)
    ultimately show ?thesis using inv o r h eS
      by (simp add: guard_inv_def closed_conns_def close_calls_def physical_def notify_def reported_def)
  next
    case L126
    from inv nF L126 have o: "once (client s) = Done"
      by (cases "once (client s)") (auto simp: guard_inv_def)
    from st th L126 have r: "th' = Close_call (Returned e) t e" "c' = client s" by auto
    have "body ?s' = body s" using upd(1) [of ?B] r th L126 by (simp add: body_def)
    moreover have "map t_of (finished ?s') = map t_of (finished s)"
      using filter_update_split [OF i, of ?F th'] filter_nth_split [OF i, of ?F] r th L126
      by (simp add: finished_def)
    ultimately show ?thesis using inv o r eS
      by (simp add: guard_inv_def closed_conns_def close_calls_def physical_def notify_def reported_def)
  next
    case (Returned x)
    with st th show ?thesis by simp
  qed
qed

lemma guard_inv_append:
  "guard_inv bc bo s \<Longrightarrow> guarded_part c' = guarded_part (client s) \<Longrightarrow>
   guard_inv bc bo (s\<lparr>client := c', closers := closers s @ [Close_call L110 t None]\<rparr>)"
  using guard_inv_cong [of "s\<lparr>client := c', closers := closers s @ [Close_call L110 t None]\<rparr>" s bc bo]
  by (simp add: body_def finished_def errs_def)

lemma guard_inv_client:
  "guard_inv bc bo s \<Longrightarrow> guarded_part c' = guarded_part (client s) \<Longrightarrow>
   guard_inv bc bo (s\<lparr>client := c'\<rparr>)"
  using guard_inv_cong [of "s\<lparr>client := c'\<rparr>" s bc bo]
  by (simp add: body_def finished_def errs_def)

lemma guard_inv_step: "guard_inv bc bo s \<Longrightarrow> guard_inv bc bo (step E a s)"
proof (cases a)
  case (Call_Close t)
  assume "guard_inv bc bo s"
  then show ?thesis using Call_Close guard_inv_append [of bc bo s "client s" t] by simp
next
  case Call_AuthSuccess
  assume "guard_inv bc bo s"
  then show ?thesis
    using Call_AuthSuccess guard_inv_client [of bc bo s "AuthSuccess (client s)"]
    by (simp add: AuthSuccess_def guarded_part_def closed_conns_def close_calls_def)
next
  case Call_Run
  assume "guard_inv bc bo s"
  then show ?thesis
    using Call_Run guard_inv_cong [of "s\<lparr>readers := readers s @ [R200], evloops := evloops s @ [E159]\<rparr>" s bc bo]
    by (simp add: body_def finished_def errs_def)
next
  case (Close_step i w)
  assume inv: "guard_inv bc bo s"
  show ?thesis
  proof (cases "i < length (closers s)")
    case True
    show ?thesis
    proof (cases "Close w (closers s ! i) (client s)")
      case Panic
      then show ?thesis
        using inv True Close_step guard_inv_cong [of "s\<lparr>panicked := True\<rparr>" s bc bo]
        by (simp add: body_def finished_def errs_def)
    next
      case Blocked
      then show ?thesis using inv True Close_step by simp
    next
      case (Next x)
      then obtain th' c' where "Close w (closers s ! i) (client s) = Next (th', c')" by (cases x) simp
      then show ?thesis using inv True Close_step guard_inv_Close [of bc bo s i w th' c'] by simp
    qed
  next
    case False
    then show ?thesis using inv Close_step by simp
  qed
next
  case (readMessage_step i inp)
  assume inv: "guard_inv bc bo s"
  show ?thesis
  proof (cases "i < length (readers s)")
    case True
    show ?thesis
    proof (cases "readMessage E inp (readers s ! i) (client s)")
      case Panic
      then show ?thesis
        using inv True readMessage_step guard_inv_cong [of "s\<lparr>panicked := True\<rparr>" s bc bo]
        by (simp add: body_def finished_def errs_def)
    next
      case Blocked
      then show ?thesis using inv True readMessage_step by simp
    next
      case (Next x)
      then obtain r go c' where n: "readMessage E inp (readers s ! i) (client s) = Next (r, go, c')"
        by (cases x) auto
      then have g: "guarded_part c' = guarded_part (client s)"
        using readMessage_guarded_part by blast
      show ?thesis
      proof (cases go)
        case None
        then show ?thesis
          using inv True readMessage_step n g
            guard_inv_cong [of "s\<lparr>client := c', readers := (readers s)[i := r], closers := closers s\<rparr>" s bc bo]
          by (simp add: body_def finished_def errs_def)
      next
        case (Some t)
        have "guard_inv bc bo (s\<lparr>client := c', closers := closers s @ [Close_call L110 t None]\<rparr>)"
          using inv g by (rule guard_inv_append)
        then show ?thesis
          using True readMessage_step n Some
            guard_inv_cong [of "s\<lparr>client := c', readers := (readers s)[i := r],
                                 closers := closers s @ [Close_call L110 t None]\<rparr>"
                              "s\<lparr>client := c', closers := closers s @ [Close_call L110 t None]\<rparr>" bc bo]
          by (simp add: body_def finished_def errs_def)
      qed
    qed
  next
    case False
    then show ?thesis using inv readMessage_step by simp
  qed
next
  case (eventLoop_step i sel)
  assume inv: "guard_inv bc bo s"
  show ?thesis
  proof (cases "i < length (evloops s)")
    case True
    show ?thesis
    proof (cases "eventLoop E sel (evloops s ! i) (client s)")
      case Panic
      then show ?thesis
        using inv True eventLoop_step guard_inv_cong [of "s\<lparr>panicked := True\<rparr>" s bc bo]
        by (simp add: body_def finished_def errs_def)
    next
      case Blocked
      then show ?thesis using inv True eventLoop_step by simp
    next
      case (Next x)
      then obtain e c' where n: "eventLoop E sel (evloops s ! i) (client s) = Next (e, c')"
        by (cases x) auto
      then have g: "guarded_part c' = guarded_part (client s)"
        using eventLoop_guarded_part by blast
      show ?thesis
        using inv True eventLoop_step n g
          guard_inv_cong [of "s\<lparr>client := c', evloops := (evloops s)[i := e]\<rparr>" s bc bo]
        by (simp add: body_def finished_def errs_def)
    qed
  next
    case False
    then show ?thesis using inv eventLoop_step by simp
  qed
qed

lemma guard_inv_run: "guard_inv bc bo s \<Longrightarrow> guard_inv bc bo (run E acts s)"
  by (induction acts arbitrary: s) (simp_all add: guard_inv_step)

lemma armed_guard_inv:
  "armed s \<Longrightarrow> guard_inv (closed_conns (client s)) (close_calls (client s)) s"
  by (auto simp: armed_def guard_inv_def body_def finished_def errs_def filter_empty_conv)

subsection \<open>Fields that stay fixed, close frames and results\<close>

lemma Close_fixed_part: "Close w th c = Next (th', c') \<Longrightarrow> fixed_part c' = fixed_part c \<and> t_of th' = t_of th"
  by (induction w th c rule: Close.induct)
     (auto simp: fixed_part_def emit_def split: option.splits once_state.splits if_splits)

lemma readMessage_fixed_part: "readMessage E inp r c = Next (r', go, c') \<Longrightarrow> fixed_part c' = fixed_part c"
  by (induction E inp r c rule: readMessage.induct)
     (auto simp: fixed_part_def emit_def loop_stop_def
           split: if_splits sum.splits option.splits prod.splits)

lemma eventLoop_fixed_part: "eventLoop E sel e c = Next (e', c') \<Longrightarrow> fixed_part c' = fixed_part c"
  by (induction E sel e c rule: eventLoop.induct)
     (auto simp: fixed_part_def emit_def loop_stop_def SendHeartbeat_def SendMessage_def
           split: if_splits sum.splits option.splits list.splits write_result.splits)

lemma step_fixed_part: "fixed_part (client (step E a s)) = fixed_part (client s)"
proof (cases a)
  case (Close_step i w)
  then show ?thesis
    using Close_fixed_part [of w "closers s ! i" "client s"]
    by (cases "Close w (closers s ! i) (client s)") auto
next
  case (readMessage_step i inp)
  then show ?thesis
    using readMessage_fixed_part [of E inp "readers s ! i" "client s"]
    by (cases "readMessage E inp (readers s ! i) (client s)") auto
next
  case (eventLoop_step i sel)
  then show ?thesis
    using eventLoop_fixed_part [of E sel "evloops s ! i" "client s"]
    by (cases "eventLoop E sel (evloops s ! i) (client s)") auto
qed (simp_all add: fixed_part_def AuthSuccess_def)

lemma run_fixed_part: "fixed_part (client (run E acts s)) = fixed_part (client s)"
  by (induction acts arbitrary: s) (simp_all add: step_fixed_part)

lemma Close_writes:
  "Close w th c = Next (th', c') \<Longrightarrow>
   length (close_writes c') + (if wrote (pc_of th) then 1 else 0) =
   length (close_writes c) + (if wrote (pc_of th') then 1 else 0)"
  by (induction w th c rule: Close.induct)
     (auto simp: close_writes_def emit_def split: option.splits once_state.splits if_splits)

lemma writes_inv_step: "writes_inv f s \<Longrightarrow> writes_inv f (step E a s)"
proof (cases a)
  case (Close_step i w)
  assume inv: "writes_inv f s"
  show ?thesis
  proof (cases "i < length (closers s)")
    case True
    show ?thesis
    proof (cases "Close w (closers s ! i) (client s)")
      case (Next x)
      then obtain th' c' where n: "Close w (closers s ! i) (client s) = Next (th', c')" by (cases x) simp
      show ?thesis
        using inv True Close_step n Close_writes [OF n]
          length_filter_update [OF True, of "\<lambda>th. wrote (pc_of th)" th']
        by (simp add: writes_inv_def split: if_splits)
    qed (use inv True Close_step in \<open>simp_all add: writes_inv_def\<close>)
  next
    case False
    then show ?thesis using inv Close_step by simp
  qed
next
  case (readMessage_step i inp)
  assume inv: "writes_inv f s"
  show ?thesis
  proof (cases "readMessage E inp (readers s ! i) (client s)")
    case (Next x)
    then obtain r go c' where n: "readMessage E inp (readers s ! i) (client s) = Next (r, go, c')"
      by (cases x) auto
    then have "close_writes c' = close_writes (client s)" using readMessage_guarded_part by blast
    then show ?thesis using inv readMessage_step n
      by (cases go) (simp_all add: writes_inv_def)
  qed (use inv readMessage_step in \<open>simp_all add: writes_inv_def\<close>)
next
  case (eventLoop_step i sel)
  assume inv: "writes_inv f s"
  show ?thesis
  proof (cases "eventLoop E sel (evloops s ! i) (client s)")
    case (Next x)
    then obtain e c' where n: "eventLoop E sel (evloops s ! i) (client s) = Next (e, c')"
      by (cases x) auto
    then have "close_writes c' = close_writes (client s)" using eventLoop_guarded_part by blast
    then show ?thesis using inv eventLoop_step n by (simp add: writes_inv_def)
  qed (use inv eventLoop_step in \<open>simp_all add: writes_inv_def\<close>)
qed (simp_all add: writes_inv_def AuthSuccess_def close_writes_def)

lemma writes_inv_run: "writes_inv f s \<Longrightarrow> writes_inv f (run E acts s)"
  by (induction acts arbitrary: s) (simp_all add: writes_inv_step)

lemma armed_writes_inv: "armed s \<Longrightarrow> writes_inv (length (close_writes (client s))) s"
  by (auto simp: armed_def writes_inv_def filter_empty_conv)

lemma Close_result_ok: "Close w th c = Next (th', c') \<Longrightarrow> result_ok th'"
  by (induction w th c rule: Close.induct)
     (auto split: option.splits once_state.splits if_splits)

lemma list_all_update: "list_all P xs \<Longrightarrow> P y \<Longrightarrow> list_all P (xs[i := y])"
  using set_update_subset_insert [of xs i y] by (auto simp: list_all_iff)

lemma result_ok_step: "list_all result_ok (closers s) \<Longrightarrow> list_all result_ok (closers (step E a s))"
proof (cases a)
  case (Close_step i w)
  assume "list_all result_ok (closers s)"
  then show ?thesis
    using Close_step Close_result_ok [of w "closers s ! i" "client s"] list_all_update
    by (cases "Close w (closers s ! i) (client s)") auto
next
  case (readMessage_step i inp)
  assume "list_all result_ok (closers s)"
  then show ?thesis
    using readMessage_step
    by (cases "readMessage E inp (readers s ! i) (client s)") (auto split: option.splits)
next
  case (eventLoop_step i sel)
  assume "list_all result_ok (closers s)"
  then show ?thesis
    using eventLoop_step
    by (cases "eventLoop E sel (evloops s ! i) (client s)") auto
qed simp_all

lemma result_ok_run: "list_all result_ok (closers s) \<Longrightarrow> list_all result_ok (closers (run E acts s))"
  by (induction acts arbitrary: s) (simp_all add: result_ok_step)

lemma armed_result_ok: "armed s \<Longrightarrow> list_all result_ok (closers s)"
proof -
  have "pc_of th = L110 \<Longrightarrow> result_ok th" for th by (cases th) simp
  then show "armed s \<Longrightarrow> list_all result_ok (closers s)"
    by (auto simp: armed_def list_all_iff)
qed

subsection \<open>The example runs\<close>

lemmas demo_defs = demo_dialer_def demo_env_def close_once_def close_again_def close_sent_def
  idle_def Dial_def WithOnClose_def NewWsClient_def initDispatcherHandleMap_def emit_def
  CloseActively_def CloseMessage_def CloseNormalClosure_def

lemma demo_client_value:
  "demo_client =
     \<lparr>logger = 0, conn = Some \<lparr>address = ''wss://b'', close_result = Some (ErrorString ''close failed'')\<rparr>,
      msgChan = [], dispatcher = demo_handlers, authed = False, onClose = Some ''cb'', closeWait = 0,
      once = Fresh, closeChan = False, isClosed = False,
      effects = [DialerDial ''wss://a'',
                 Log Error ''websocket dial fail''
                   [slog_String ''link'' (Lit ''wss://a''),
                    slog_String ''err'' (ErrorOf (ErrorString ''connection refused''))],
                 DialerDial ''wss://b'', Log Info ''dial success'' []],
      msgVars = [], nextVar = 0\<rparr>"
  by (simp add: demo_client_def demo_defs)

lemma close_once_run:
  "closers (run demo_env close_once (idle demo_client)) =
     [Close_call (Returned (Some (ErrorString ''close failed''))) 2 (Some (ErrorString ''close failed''))] \<and>
   once (client (run demo_env close_once (idle demo_client))) = Done \<and>
   effects (client (run demo_env close_once (idle demo_client))) =
     effects demo_client @
     [Log Info ''ws client close'' [slog_Int ''close_type'' 2],
      WriteMessage \<lparr>address = ''wss://b'', close_result = Some (ErrorString ''close failed'')\<rparr> 8
        (FormatCloseMessage 1000 []) Written,
      ConnClose \<lparr>address = ''wss://b'', close_result = Some (ErrorString ''close failed'')\<rparr>,
      OnCloseCall ''cb'' 2]"
  by (simp add: demo_client_value demo_defs)

lemma close_twice_run:
  "closers (run demo_env (close_once @ close_again) (idle demo_client)) =
     [Close_call (Returned (Some (ErrorString ''close failed''))) 2 (Some (ErrorString ''close failed'')),
      Close_call (Returned None) 2 None] \<and>
   once (client (run demo_env (close_once @ close_again) (idle demo_client))) = Done \<and>
   effects (client (run demo_env (close_once @ close_again) (idle demo_client))) =
     effects demo_client @
     [Log Info ''ws client close'' [slog_Int ''close_type'' 2],
      WriteMessage \<lparr>address = ''wss://b'', close_result = Some (ErrorString ''close failed'')\<rparr> 8
        (FormatCloseMessage 1000 []) Written,
      ConnClose \<lparr>address = ''wss://b'', close_result = Some (ErrorString ''close failed'')\<rparr>,
      OnCloseCall ''cb'' 2,
      Log Info ''ws client close'' [slog_Int ''close_type'' 2],
      WriteMessage \<lparr>address = ''wss://b'', close_result = Some (ErrorString ''close failed'')\<rparr> 8
        (FormatCloseMessage 1000 []) (Refused (ErrorString ''websocket: close sent''))]"
  by (simp add: demo_client_value demo_defs)

lemma close_partial_run:
  "once (client (run demo_env (take 8 close_once) (idle demo_client))) = Running \<and>
   body (run demo_env (take 8 close_once) (idle demo_client)) =
     [Close_call L121 2 (Some (ErrorString ''close failed''))]"
  by (simp add: demo_client_value demo_defs body_def)

lemma started_value:
  "started =
     \<lparr>client = demo_client\<lparr>closeWait := 2,
                 effects := effects demo_client @
                   [Log Info ''ws read message start'' [], Log Info ''ws event loop start'' []]\<rparr>,
      closers = [], readers = [R209], evloops = [E170 15 (Some 10)], panicked = False\<rparr>"
  by (simp add: started_def demo_client_value idle_def emit_def)

lemmas frame_types = noFrame_def TextMessage_def BinaryMessage_def CloseMessage_def
  PingMessage_def PongMessage_def

lemma loaded_value:
  "loaded =
     \<lparr>client = demo_client\<lparr>closeWait := 2,
                 msgChan := [Some \<lparr>Operation = 5, Payload = [5]\<rparr>, Some \<lparr>Operation = 9, Payload = [9]\<rparr>,
                             Some \<lparr>Operation = 7, Payload = [7]\<rparr>],
                 effects := effects demo_client @
                   [Log Info ''ws read message start'' [], Log Info ''ws event loop start'' []],
                 msgVars := [0, 1, 2], nextVar := 3\<rparr>,
      closers = [], readers = [R209], evloops = [E170 15 (Some 10)], panicked = False\<rparr>"
  by (simp add: loaded_def feed_def started_value demo_client_value demo_env_def frame_types)

lemma peer_close_loaded_value:
  "client (run demo_env peer_close_run loaded) =
     demo_client\<lparr>once := Done, closeChan := True, isClosed := True,
                 msgChan := [Some \<lparr>Operation = 5, Payload = [5]\<rparr>, Some \<lparr>Operation = 9, Payload = [9]\<rparr>,
                             Some \<lparr>Operation = 7, Payload = [7]\<rparr>],
                 effects := effects demo_client @
                   [Log Info ''ws read message start'' [], Log Info ''ws event loop start'' [],
                    Log Error ''read message fail''
                      [slog_String ''err''
                         (ErrorOf (Wrapf (CloseError 1000 []) ''msg_type:%d'' [IntArg (- 1)]))],
                    Log Info ''ws read message stop'' [],
                    Log Info ''ws client close'' [slog_Int ''close_type'' 3],
                    WriteMessage \<lparr>address = ''wss://b'', close_result = Some (ErrorString ''close failed'')\<rparr>
                      8 (FormatCloseMessage 1000 []) (Refused (ErrorString ''websocket: close sent'')),
                    Log Info ''ws event loop stop'' [],
                    ConnClose \<lparr>address = ''wss://b'', close_result = Some (ErrorString ''close failed'')\<rparr>,
                    OnCloseCall ''cb'' 3],
                 msgVars := [0, 1, 2], nextVar := 3\<rparr>"
  by (simp add: loaded_value peer_close_run_def close_sent_def demo_client_value emit_def
        loop_stop_def frame_types CloseNormalClosure_def CloseReadingConnError_def)

lemma concurrent_close_run:
  "closers (run demo_env concurrent_close started) =
     [Close_call (Returned None) 2 None,
      Close_call (Returned (Some (ErrorString ''close failed''))) 2 (Some (ErrorString ''close failed''))] \<and>
   readers (run demo_env concurrent_close started) = [R_done] \<and>
   evloops (run demo_env concurrent_close started) = [E_done] \<and>
   effects (client (run demo_env concurrent_close started)) =
     effects demo_client @
     [Log Info ''ws read message start'' [], Log Info ''ws event loop start'' [],
      Log Info ''ws client close'' [slog_Int ''close_type'' 2],
      Log Info ''ws client close'' [slog_Int ''close_type'' 2],
      WriteMessage \<lparr>address = ''wss://b'', close_result = Some (ErrorString ''close failed'')\<rparr> 8
        (FormatCloseMessage 1000 []) Written,
      WriteMessage \<lparr>address = ''wss://b'', close_result = Some (ErrorString ''close failed'')\<rparr> 8
        (FormatCloseMessage 1000 []) (Refused (ErrorString ''websocket: close sent'')),
      Log Info ''ws event loop stop'' [], Log Info ''ws read message stop'' [],
      ConnClose \<lparr>address = ''wss://b'', close_result = Some (ErrorString ''close failed'')\<rparr>,
      OnCloseCall ''cb'' 2]"
  by (simp add: started_value concurrent_close_def close_sent_def demo_client_value emit_def
        loop_stop_def frame_types CloseNormalClosure_def CloseActively_def)

lemma armed_demo: "armed (idle demo_client)"
  by (simp add: armed_def demo_client_value idle_def)

lemma armed_started: "armed started"
  by (simp add: armed_def started_value demo_client_value)

subsection \<open>A lifetime without teardown\<close>

lemma run_append: "run E (as @ bs) s = run E bs (run E as s)"
proof (induction as arbitrary: s)
  case Nil
  then show ?case by simp
next
  case (Cons a as)
  then show ?case by (cases bs) simp_all
qed

lemma length_assign_var: "length (assign_var v msg us xs) = length xs"
  by (induction v msg us xs rule: assign_var.induct) simp_all

text \<open>One frame fed to a reader at line 209 puts one element more on the channel.\<close>

lemma feed_run:
  assumes "conn c = Some k" and "length (msgChan c) < 1024"
  shows "run demo_env (feed [5])
           \<lparr>client = c, closers = cl, readers = [R209], evloops = ev, panicked = False\<rparr> =
         \<lparr>client = c\<lparr>nextVar := Suc (nextVar c),
                       msgChan := assign_var (nextVar c) \<lparr>Operation = 5, Payload = [5]\<rparr>
                                    (msgVars c) (msgChan c) @
                                  [Some \<lparr>Operation = 5, Payload = [5]\<rparr>],
                       msgVars := msgVars c @ [nextVar c]\<rparr>,
          closers = cl, readers = [R209], evloops = ev, panicked = False\<rparr>"
  using assms
  by (simp add: feed_def demo_env_def frame_types length_assign_var)

lemma fill_run:
  assumes "conn c = Some k" and "length (msgChan c) + n \<le> 1024"
  shows "\<exists>q vs m.
           run demo_env (concat (replicate n (feed [5])))
             \<lparr>client = c, closers = cl, readers = [R209], evloops = ev, panicked = False\<rparr> =
           \<lparr>client = c\<lparr>msgChan := q, msgVars := vs, nextVar := m\<rparr>,
            closers = cl, readers = [R209], evloops = ev, panicked = False\<rparr> \<and>
           length q = length (msgChan c) + n"
  using assms
proof (induction n arbitrary: c)
  case 0
  show ?case
  proof (intro exI conjI)
    show "run demo_env (concat (replicate 0 (feed [5])))
            \<lparr>client = c, closers = cl, readers = [R209], evloops = ev, panicked = False\<rparr> =
          \<lparr>client = c\<lparr>msgChan := msgChan c, msgVars := msgVars c, nextVar := nextVar c\<rparr>,
           closers = cl, readers = [R209], evloops = ev, panicked = False\<rparr>"
      by simp
    show "length (msgChan c) = length (msgChan c) + 0" by simp
  qed
next
  case (Suc n)
  let ?c1 = "c\<lparr>nextVar := Suc (nextVar c),
                msgChan := assign_var (nextVar c) \<lparr>Operation = 5, Payload = [5]\<rparr>
                             (msgVars c) (msgChan c) @
                           [Some \<lparr>Operation = 5, Payload = [5]\<rparr>],
                msgVars := msgVars c @ [nextVar c]\<rparr>"
  from Suc.prems have lt: "length (msgChan c) < 1024" by simp
  have f: "run demo_env (feed [5])
             \<lparr>client = c, closers = cl, readers = [R209], evloops = ev, panicked = False\<rparr> =
           \<lparr>client = ?c1, closers = cl, readers = [R209], evloops = ev, panicked = False\<rparr>"
    using Suc.prems(1) lt by (rule feed_run)
  have c1: "conn ?c1 = Some k" "length (msgChan ?c1) + n \<le> 1024"
    using Suc.prems by (simp_all add: length_assign_var)
  from Suc.IH [OF c1] obtain q vs m
    where r: "run demo_env (concat (replicate n (feed [5])))
                \<lparr>client = ?c1, closers = cl, readers = [R209], evloops = ev, panicked = False\<rparr> =
              \<lparr>client = ?c1\<lparr>msgChan := q, msgVars := vs, nextVar := m\<rparr>,
               closers = cl, readers = [R209], evloops = ev, panicked = False\<rparr>"
      and lq: "length q = length (msgChan ?c1) + n"
    by (elim exE conjE)
  show ?case
  proof (intro exI conjI)
    show "run demo_env (concat (replicate (Suc n) (feed [5])))
            \<lparr>client = c, closers = cl, readers = [R209], evloops = ev, panicked = False\<rparr> =
          \<lparr>client = c\<lparr>msgChan := q, msgVars := vs, nextVar := m\<rparr>,
           closers = cl, readers = [R209], evloops = ev, panicked = False\<rparr>"
      by (simp add: run_append f r)
    show "length q = length (msgChan c) + Suc n"
      using lq by (simp add: length_assign_var)
  qed
qed

text \<open>The state \<open>stuck\<close>: the call waits at line 118 and nothing has been torn down.\<close>

lemma stuck_value:
  "deadlocked stuck \<and> closers stuck = [Close_call L118 CloseActively None] \<and>
   closeChan (client stuck) \<and> closeWait (client stuck) = 1 \<and>
   closed_conns (client stuck) = [] \<and> close_calls (client stuck) = []"
proof -
  let ?c = "demo_client\<lparr>closeWait := 2,
              effects := effects demo_client @
                [Log Info ''ws read message start'' [], Log Info ''ws event loop start'' []]\<rparr>"
  have h: "conn ?c = Some \<lparr>address = ''wss://b'', close_result = Some (ErrorString ''close failed'')\<rparr>"
    "length (msgChan ?c) + 1024 \<le> 1024"
    by (simp_all add: demo_client_value)
  from fill_run [OF h, of "[]" "[E170 15 (Some 10)]"] obtain q vs m
    where r: "run demo_env (concat (replicate 1024 (feed [5]))) started =
                \<lparr>client = ?c\<lparr>msgChan := q, msgVars := vs, nextVar := m\<rparr>,
                 closers = [], readers = [R209], evloops = [E170 15 (Some 10)], panicked = False\<rparr>"
      and lq0: "length q = length (msgChan ?c) + 1024"
    unfolding started_value by (elim exE conjE)
  from lq0 have lq: "length q = 1024" by (simp add: demo_client_value)
  have st: "stuck =
      run demo_env
        [Call_Close CloseActively,
         Close_step 0 Written, Close_step 0 Written, Close_step 0 Written, Close_step 0 Written,
         Close_step 0 Written,
         eventLoop_step 0 (Some case_closeChan), eventLoop_step 0 None]
        (run demo_env [readMessage_step 0 (ReadMessage (Binary_frame [5])), readMessage_step 0 None]
           (run demo_env (concat (replicate 1024 (feed [5]))) started))"
    by (simp only: stuck_def jam_def run_append)
  show ?thesis
    unfolding st r using lq
    by (simp add: deadlocked_def demo_client_value demo_env_def frame_types emit_def
          loop_stop_def closed_conns_def close_calls_def length_assign_var CloseActively_def
          CloseNormalClosure_def)
qed

lemma deadlocked_finished: "deadlocked s \<Longrightarrow> finished s = []"
proof -
  have "waiting p \<Longrightarrow> \<not> past_once p" for p by (cases p) simp_all
  then show "deadlocked s \<Longrightarrow> finished s = []"
    by (auto simp: deadlocked_def finished_def filter_empty_conv list_all_iff)
qed

lemma Close_waiting:
  assumes "waiting (pc_of th)" and "once c = Running" and "closeWait c \<noteq> 0"
    and "Close w th c = Next (th', c')"
  shows "waiting (pc_of th') \<and> once c' = Running \<and> closeWait c' = closeWait c \<and>
         msgChan c' = msgChan c \<and> closed_conns c' = closed_conns c \<and> close_calls c' = close_calls c"
proof -
  obtain p t e where th: "th = Close_call p t e" by (cases th)
  show ?thesis
    using assms unfolding th
    by (cases p) (auto simp: emit_def closed_conns_def close_calls_def split: option.splits if_splits)
qed

lemma deadlocked_step:
  assumes "deadlocked s" and "no_Run a"
  shows "deadlocked (step E a s) \<and>
         closed_conns (client (step E a s)) = closed_conns (client s) \<and>
         close_calls (client (step E a s)) = close_calls (client s)"
proof (cases a)
  case (Call_Close t)
  then show ?thesis using assms by (simp add: deadlocked_def)
next
  case Call_AuthSuccess
  then show ?thesis
    using assms by (simp add: deadlocked_def AuthSuccess_def closed_conns_def close_calls_def)
next
  case Call_Run
  then show ?thesis using assms by simp
next
  case (Close_step i w)
  show ?thesis
  proof (cases "i < length (closers s)")
    case True
    then have wt: "waiting (pc_of (closers s ! i))"
      using assms(1) by (simp add: deadlocked_def list_all_length)
    show ?thesis
    proof (cases "Close w (closers s ! i) (client s)")
      case (Next x)
      then obtain th' c' where n: "Close w (closers s ! i) (client s) = Next (th', c')"
        by (cases x) simp
      from assms(1) have "once (client s) = Running" "closeWait (client s) \<noteq> 0"
        by (simp_all add: deadlocked_def)
      from Close_waiting [OF wt this n] show ?thesis
        using assms(1) True Close_step n list_all_update [of "\<lambda>th. waiting (pc_of th)" "closers s" th' i]
        by (simp add: deadlocked_def)
    qed (use assms True Close_step in \<open>simp_all add: deadlocked_def\<close>)
  next
    case False
    then show ?thesis using assms Close_step by simp
  qed
next
  case (readMessage_step i inp)
  show ?thesis
  proof (cases "i < length (readers s)")
    case True
    then have "stuck_reader (readers s ! i)"
      using assms(1) by (simp add: deadlocked_def list_all_length)
    moreover have "\<not> length (msgChan (client s)) < 1024"
      using assms(1) by (simp add: deadlocked_def)
    ultimately have "readMessage E inp (readers s ! i) (client s) = Blocked"
      by (cases "readers s ! i"; cases inp) simp_all
    then show ?thesis using assms True readMessage_step by simp
  next
    case False
    then show ?thesis using assms readMessage_step by simp
  qed
next
  case (eventLoop_step i sel)
  show ?thesis
  proof (cases "i < length (evloops s)")
    case True
    then have "evloops s ! i = E_done"
      using assms(1) by (simp add: deadlocked_def list_all_length)
    then have "eventLoop E sel (evloops s ! i) (client s) = Blocked"
      by (cases sel) simp_all
    then show ?thesis using assms True eventLoop_step by simp
  next
    case False
    then show ?thesis using assms eventLoop_step by simp
  qed
qed

lemma deadlocked_run:
  "deadlocked s \<Longrightarrow>
   deadlocked (run E (filter no_Run acts) s) \<and>
   closed_conns (client (run E (filter no_Run acts) s)) = closed_conns (client s) \<and>
   close_calls (client (run E (filter no_Run acts) s)) = close_calls (client s)"
proof (induction acts arbitrary: s)
  case Nil
  then show ?case by simp
next
  case (Cons a acts)
  show ?case
  proof (cases "no_Run a")
    case True
    note st = deadlocked_step [OF Cons.prems True, of E]
    from st have d: "deadlocked (step E a s)" by simp
    show ?thesis using Cons.IH [OF d] st True Cons.prems by simp
  next
    case False
    then show ?thesis using Cons.IH [OF Cons.prems] by simp
  qed
qed

text \<open>
  Claim C1 as stated fails: a call of \<open>Close\<close> does not make the teardown happen. In the
  state \<open>stuck\<close> the call has closed the close channel and waits at line 118 for the
  reader, which waits at line 233 for room on the full channel. Whatever happens from
  then on, further calls of \<open>Close\<close> included (only a second \<open>Run\<close> is left out), the
  connection is never closed, the callback is never called and no call of \<open>Close\<close> comes
  back from \<open>once.Do\<close>.
\<close>

theorem Close_never_tears_down:
  "closers stuck = [Close_call L118 CloseActively None] \<and>
   closeChan (client stuck) \<and>
   (\<forall>acts. closed_conns (client (run demo_env (filter no_Run acts) stuck)) = [] \<and>
           close_calls (client (run demo_env (filter no_Run acts) stuck)) = [] \<and>
           finished (run demo_env (filter no_Run acts) stuck) = [])"
proof -
  have d: "deadlocked stuck" using stuck_value by simp
  have "closed_conns (client (run demo_env (filter no_Run acts) stuck)) = [] \<and>
        close_calls (client (run demo_env (filter no_Run acts) stuck)) = [] \<and>
        finished (run demo_env (filter no_Run acts) stuck) = []" for acts
    using deadlocked_run [OF d, of demo_env acts] stuck_value
      deadlocked_finished [of "run demo_env (filter no_Run acts) stuck"]
    by simp
  then show ?thesis using stuck_value by simp
qed

subsection \<open>The teardown runs at most once\<close>

text \<open>
  Claim C1, amended. From the start of a connection lifetime, whatever calls of \<open>Close\<close>
  are made and however the goroutines interleave, at most one call is inside the function
  of \<open>once.Do\<close>, and at most one physical close and one callback are recorded. As soon as
  one call is back from \<open>once.Do\<close>, the close channel is closed, the connection has
  been closed exactly once, and the callback, if one is registered, has been called
  exactly once, with the close type of a call that is back. Inside the function the call
  at line 118 waits as long as the counter of the wait group is not zero, and goes on to
  the physical close when it is.
\<close>

theorem Close_teardown_once:
  assumes "armed s0"
  shows "length (body (run E acts s0)) \<le> 1 \<and>
    length (closed_conns (client (run E acts s0))) \<le> length (closed_conns (client s0)) + 1 \<and>
    length (close_calls (client (run E acts s0))) \<le> length (close_calls (client s0)) + 1 \<and>
    (finished (run E acts s0) \<noteq> [] \<longrightarrow>
       closeChan (client (run E acts s0)) \<and>
       (\<exists>k. conn (client s0) = Some k \<and>
            closed_conns (client (run E acts s0)) = closed_conns (client s0) @ [ConnClose k]) \<and>
       (onClose (client s0) = None \<longrightarrow>
          close_calls (client (run E acts s0)) = close_calls (client s0)) \<and>
       (\<forall>cb. onClose (client s0) = Some cb \<longrightarrow>
          (\<exists>t\<in>set (map t_of (finished (run E acts s0))).
             close_calls (client (run E acts s0)) = close_calls (client s0) @ [OnCloseCall cb t]))) \<and>
    (closeWait c \<noteq> 0 \<longrightarrow> Close w (Close_call L118 t e) c = Blocked) \<and>
    (closeWait c = 0 \<longrightarrow> Close w (Close_call L118 t e) c = Next (Close_call L119 t e, c))"
proof -
  let ?s = "run E acts s0"
  have inv: "guard_inv (closed_conns (client s0)) (close_calls (client s0)) ?s"
    using assms by (intro guard_inv_run armed_guard_inv)
  have fx: "conn (client ?s) = conn (client s0)" "onClose (client ?s) = onClose (client s0)"
    using run_fixed_part [of E acts s0] by (simp_all add: fixed_part_def)
  show ?thesis
  proof (cases "once (client ?s)")
    case Fresh
    with inv show ?thesis by (simp add: guard_inv_def)
  next
    case Running
    with inv show ?thesis
      by (auto simp: guard_inv_def physical_def notify_def split: option.splits if_splits)
  next
    case Done
    with inv fx show ?thesis
      by (auto simp: guard_inv_def physical_def notify_def split: option.splits)
  qed
qed

text \<open>
  Two calls at the same time while both loops run: one physical close, one callback. And
  while both loops are registered a call at line 118 waits.
\<close>

theorem Close_teardown_once_witness:
  "armed started \<and>
   finished (run demo_env concurrent_close started) \<noteq> [] \<and>
   closed_conns (client (run demo_env concurrent_close started)) =
     [ConnClose \<lparr>address = ''wss://b'', close_result = Some (ErrorString ''close failed'')\<rparr>] \<and>
   close_calls (client (run demo_env concurrent_close started)) =
     [OnCloseCall ''cb'' CloseActively] \<and>
   closeWait (client started) \<noteq> 0 \<and>
   Close Written (Close_call L118 CloseActively None) (client started) = Blocked \<and>
   closeWait demo_client = 0 \<and>
   Close Written (Close_call L118 CloseActively None) demo_client =
     Next (Close_call L119 CloseActively None, demo_client)"
  using Close_teardown_once [OF armed_started, of demo_env concurrent_close "client started"
          Written CloseActively None]
    Close_teardown_once [OF armed_started, of demo_env concurrent_close demo_client
          Written CloseActively None]
    armed_started concurrent_close_run
  by (simp add: finished_def closed_conns_def close_calls_def started_value demo_client_value
        CloseActively_def)

subsection \<open>The close frame is written outside the guard\<close>

text \<open>
  Claim C2 as stated fails: line 111 stands before \<open>once.Do\<close>, so the first step of the
  teardown is not guarded. When the first call has returned and the once is done, one
  call of \<open>conn.WriteMessage\<close> with a close frame has been made; a second call of \<open>Close\<close>
  makes another (one that the library refuses here), while the connection is closed once.
\<close>

theorem Close_write_by_later_call:
  "pc_of (closers (run demo_env close_once (idle demo_client)) ! 0) =
     Returned (Some (ErrorString ''close failed'')) \<and>
   once (client (run demo_env close_once (idle demo_client))) = Done \<and>
   close_writes (client (run demo_env close_once (idle demo_client))) =
     [WriteMessage \<lparr>address = ''wss://b'', close_result = Some (ErrorString ''close failed'')\<rparr>
        CloseMessage (FormatCloseMessage CloseNormalClosure []) Written] \<and>
   close_writes (client (run demo_env (close_once @ close_again) (idle demo_client))) =
     [WriteMessage \<lparr>address = ''wss://b'', close_result = Some (ErrorString ''close failed'')\<rparr>
        CloseMessage (FormatCloseMessage CloseNormalClosure []) Written,
      WriteMessage \<lparr>address = ''wss://b'', close_result = Some (ErrorString ''close failed'')\<rparr>
        CloseMessage (FormatCloseMessage CloseNormalClosure [])
        (Refused (ErrorString ''websocket: close sent''))] \<and>
   length (closed_conns (client (run demo_env (close_once @ close_again) (idle demo_client)))) = 1"
  using close_once_run close_twice_run
  by (simp add: close_writes_def closed_conns_def demo_client_value CloseMessage_def
        CloseNormalClosure_def)

text \<open>
  Claim C2, amended. Only the statements inside \<open>once.Do\<close> are guarded: at most one call
  is inside. The attempt to send the close frame is made by every call of \<open>Close\<close> when it
  passes line 111, whether it is the first call or not and whatever \<open>conn.WriteMessage\<close>
  does with it: the calls of \<open>conn.WriteMessage\<close> with a close frame made in a lifetime are
  as many as the calls of \<open>Close\<close> that are past line 111.
\<close>

theorem Close_write_per_call:
  assumes "armed s0"
  shows "length (close_writes (client (run E acts s0))) =
           length (close_writes (client s0)) +
           length (filter (\<lambda>th. wrote (pc_of th)) (closers (run E acts s0))) \<and>
         length (body (run E acts s0)) \<le> 1"
proof -
  have "writes_inv (length (close_writes (client s0))) (run E acts s0)"
    using assms by (intro writes_inv_run armed_writes_inv)
  moreover have "guard_inv (closed_conns (client s0)) (close_calls (client s0)) (run E acts s0)"
    using assms by (intro guard_inv_run armed_guard_inv)
  then have "length (body (run E acts s0)) \<le> 1"
    by (cases "once (client (run E acts s0))") (simp_all add: guard_inv_def)
  ultimately show ?thesis by (simp add: writes_inv_def)
qed

text \<open>Two calls past line 111 at the same time, two calls of \<open>conn.WriteMessage\<close>.\<close>

theorem Close_write_per_call_witness:
  "armed started \<and>
   length (filter (\<lambda>th. wrote (pc_of th)) (closers (run demo_env concurrent_close started))) = 2 \<and>
   length (close_writes (client (run demo_env concurrent_close started))) = 2"
  using Close_write_per_call [OF armed_started, of demo_env concurrent_close]
    armed_started concurrent_close_run
  by (simp add: close_writes_def started_value demo_client_value CloseMessage_def)

subsection \<open>What Close returns\<close>

text \<open>
  Claim C3 as stated fails: when the physical close fails, the first call returns its
  error and the second call returns nil.
\<close>

theorem Close_second_result_differs:
  "map pc_of (closers (run demo_env (close_once @ close_again) (idle demo_client))) =
     [Returned (Some (ErrorString ''close failed'')), Returned None]"
  using close_twice_run by simp

text \<open>
  Claim C3, amended. A call returns the value of its own variable \<open>err\<close>. The call that
  has closed the connection inside \<open>once.Do\<close> holds the result of the physical close in
  it. No call is back from \<open>once.Do\<close> before the teardown is complete, and then the error
  of the physical close, if there is one, is held by exactly one call; the variable of
  every other call is nil. A call that waits at \<open>once.Do\<close> when the teardown is complete
  does return, with its own \<open>err\<close>, in two steps.
\<close>

theorem Close_returns_own_err:
  assumes "armed s0"
  shows "list_all result_ok (closers (run E acts s0)) \<and>
    (once (client (run E acts s0)) = Running \<and> pc_of (hd (body (run E acts s0))) \<in> {L121, L124} \<longrightarrow>
       err_of (hd (body (run E acts s0))) = close_error (client s0)) \<and>
    (finished (run E acts s0) \<noteq> [] \<longrightarrow>
       once (client (run E acts s0)) = Done \<and>
       errs (run E acts s0) = reported (client s0)) \<and>
    (\<not> panicked s \<and> once (client s) = Done \<and> i < length (closers s) \<and>
     closers s ! i = Close_call L113 t e \<longrightarrow>
       closers (run E [Close_step i w, Close_step i w'] s) ! i = Close_call (Returned e) t e)"
proof -
  let ?s = "run E acts s0"
  have inv: "guard_inv (closed_conns (client s0)) (close_calls (client s0)) ?s"
    using assms by (intro guard_inv_run armed_guard_inv)
  have fx: "conn (client ?s) = conn (client s0)"
    using run_fixed_part [of E acts s0] by (simp add: fixed_part_def)
  have "list_all result_ok (closers ?s)"
    using assms by (intro result_ok_run armed_result_ok)
  moreover have "finished ?s \<noteq> [] \<longrightarrow> once (client ?s) = Done \<and> errs ?s = reported (client s0)"
    using inv fx by (cases "once (client ?s)") (simp_all add: guard_inv_def reported_def)
  moreover have "once (client ?s) = Running \<and> pc_of (hd (body ?s)) \<in> {L121, L124} \<longrightarrow>
       err_of (hd (body ?s)) = close_error (client s0)"
    using inv fx by (auto simp: guard_inv_def close_error_def)
  moreover have "\<not> panicked s \<and> once (client s) = Done \<and> i < length (closers s) \<and>
     closers s ! i = Close_call L113 t e \<longrightarrow>
       closers (run E [Close_step i w, Close_step i w'] s) ! i = Close_call (Returned e) t e"
    by simp
  ultimately show ?thesis by simp
qed

text \<open>The first call returns the error of the physical close, the second nil.\<close>

theorem Close_returns_own_err_witness:
  "armed (idle demo_client) \<and>
   once (client (run demo_env (take 8 close_once) (idle demo_client))) = Running \<and>
   pc_of (hd (body (run demo_env (take 8 close_once) (idle demo_client)))) = L121 \<and>
   err_of (hd (body (run demo_env (take 8 close_once) (idle demo_client)))) =
     Some (ErrorString ''close failed'') \<and>
   finished (run demo_env (close_once @ close_again) (idle demo_client)) \<noteq> [] \<and>
   errs (run demo_env (close_once @ close_again) (idle demo_client)) =
     [Some (ErrorString ''close failed'')] \<and>
   map pc_of (closers (run demo_env (close_once @ close_again) (idle demo_client))) =
     [Returned (Some (ErrorString ''close failed'')), Returned None]"
  using Close_returns_own_err [OF armed_demo, of demo_env "close_once @ close_again"
          "run demo_env (close_once @ take 3 close_again) (idle demo_client)" 1 2 None
          close_sent close_sent]
    Close_returns_own_err [OF armed_demo, of demo_env "take 8 close_once"]
    armed_demo close_twice_run close_partial_run
  by (simp add: finished_def errs_def reported_def demo_client_value idle_def close_error_def)

subsection \<open>Dial\<close>

lemma dialed_append: "dialed (xs @ ys) = dialed xs @ dialed ys"
  by (induction xs rule: dialed.induct) simp_all

lemma Dial_loop_all_fail:
  "\<forall>x\<in>set links. isl (d x) \<Longrightarrow>
   fst (Dial_loop d links err c) = (if links = [] then err else Some (projl (d (last links)))) \<and>
   conn (snd (Dial_loop d links err c)) = (if links = [] then conn c else None) \<and>
   dialed (effects (snd (Dial_loop d links err c))) = dialed (effects c) @ links"
proof (induction links arbitrary: err c)
  case Nil
  then show ?case by simp
next
  case (Cons link links)
  then obtain e where e: "d link = Inl e" by (cases "d link") auto
  from Cons.prems have rest: "\<forall>x\<in>set links. isl (d x)" by simp
  show ?case
    using Cons.IH [OF rest] e by (simp add: emit_def dialed_append)
qed

lemma Dial_loop_first_success:
  "\<forall>x\<in>set pre. isl (d x) \<Longrightarrow> d l = Inr k \<Longrightarrow>
   fst (Dial_loop d (pre @ l # post) err c) = None \<and>
   conn (snd (Dial_loop d (pre @ l # post) err c)) = Some k \<and>
   dialed (effects (snd (Dial_loop d (pre @ l # post) err c))) = dialed (effects c) @ pre @ [l]"
proof (induction pre arbitrary: err c)
  case Nil
  then show ?case by (simp add: emit_def dialed_append)
next
  case (Cons link pre)
  then obtain e where e: "d link = Inl e" by (cases "d link") auto
  from Cons.prems have rest: "\<forall>x\<in>set pre. isl (d x)" by simp
  show ?case
    using Cons.IH [OF rest Cons.prems(2)] e by (simp add: emit_def dialed_append)
qed

text \<open>
  Claim C5. When the addresses \<open>pre\<close> all fail and the next address \<open>l\<close> connects,
  \<open>Dial\<close> returns no error, the client holds that connection, and the dialer was asked
  for \<open>pre\<close> and \<open>l\<close> in order and for nothing after \<open>l\<close>. When every address of a
  non-empty list fails, the dialer was asked for all of them in order, \<open>Dial\<close> returns
  the last error wrapped in a message that holds the whole list, and the client holds no
  connection.
\<close>

theorem Dial_first_success_else_aggregate:
  "(links = pre @ l # post \<and> (\<forall>x\<in>set pre. isl (d x)) \<and> d l = Inr k \<longrightarrow>
      fst (Dial d links c) = None \<and>
      conn (snd (Dial d links c)) = Some k \<and>
      dialed (effects (snd (Dial d links c))) = dialed (effects c) @ pre @ [l]) \<and>
   (links \<noteq> [] \<and> (\<forall>x\<in>set links. isl (d x)) \<longrightarrow>
      fst (Dial d links c) =
        Some (Wrapf (projl (d (last links))) ''websocket dial fail. links:%v'' [Links links]) \<and>
      conn (snd (Dial d links c)) = None \<and>
      dialed (effects (snd (Dial d links c))) = dialed (effects c) @ links)"
proof (intro conjI impI)
  assume a: "links = pre @ l # post \<and> (\<forall>x\<in>set pre. isl (d x)) \<and> d l = Inr k"
  then have p: "\<forall>x\<in>set pre. isl (d x)" and l: "d l = Inr k" by simp_all
  note fs = Dial_loop_first_success [OF p l, of post None c]
  obtain r c' where r: "Dial_loop d (pre @ l # post) None c = (r, c')" by (cases "Dial_loop d (pre @ l # post) None c")
  with fs have "r = None" "conn c' = Some k" "dialed (effects c') = dialed (effects c) @ pre @ [l]" by simp_all
  with a r show "fst (Dial d links c) = None" "conn (snd (Dial d links c)) = Some k"
    "dialed (effects (snd (Dial d links c))) = dialed (effects c) @ pre @ [l]"
    by (simp_all add: Dial_def emit_def dialed_append)
next
  assume a: "links \<noteq> [] \<and> (\<forall>x\<in>set links. isl (d x))"
  then have p: "\<forall>x\<in>set links. isl (d x)" and ne: "links \<noteq> []" by simp_all
  note af = Dial_loop_all_fail [OF p, of None c]
  obtain r c' where r: "Dial_loop d links None c = (r, c')" by (cases "Dial_loop d links None c")
  with af ne have "r = Some (projl (d (last links)))" "conn c' = None" "dialed (effects c') = dialed (effects c) @ links" by simp_all
  with r show "fst (Dial d links c) =
        Some (Wrapf (projl (d (last links))) ''websocket dial fail. links:%v'' [Links links])"
      "conn (snd (Dial d links c)) = None"
      "dialed (effects (snd (Dial d links c))) = dialed (effects c) @ links"
    by (simp_all add: Dial_def)
qed

text \<open>Success on the second of three addresses; failure of two addresses.\<close>

theorem Dial_first_success_else_aggregate_witness:
  "fst (Dial demo_dialer [''wss://a'', ''wss://b'', ''wss://c''] (NewWsClient None 0)) = None \<and>
   conn (snd (Dial demo_dialer [''wss://a'', ''wss://b'', ''wss://c''] (NewWsClient None 0))) =
     Some \<lparr>address = ''wss://b'', close_result = Some (ErrorString ''close failed'')\<rparr> \<and>
   dialed (effects (snd (Dial demo_dialer [''wss://a'', ''wss://b'', ''wss://c''] (NewWsClient None 0)))) =
     [''wss://a'', ''wss://b''] \<and>
   fst (Dial demo_dialer [''wss://a'', ''wss://c''] (NewWsClient None 0)) =
     Some (Wrapf (ErrorString ''connection refused'') ''websocket dial fail. links:%v''
             [Links [''wss://a'', ''wss://c'']]) \<and>
   conn (snd (Dial demo_dialer [''wss://a'', ''wss://c''] (NewWsClient None 0))) = None \<and>
   dialed (effects (snd (Dial demo_dialer [''wss://a'', ''wss://c''] (NewWsClient None 0)))) =
     [''wss://a'', ''wss://c'']"
  using Dial_first_success_else_aggregate
          [of "[''wss://a'', ''wss://b'', ''wss://c'']" "[''wss://a'']" "''wss://b''" "[''wss://c'']"
              demo_dialer "\<lparr>address = ''wss://b'', close_result = Some (ErrorString ''close failed'')\<rparr>" "NewWsClient None 0"]
        Dial_first_success_else_aggregate
          [of "[''wss://a'', ''wss://c'']" "[]" "''wss://a''" "[''wss://c'']" demo_dialer
              "\<lparr>address = ''wss://b'', close_result = Some (ErrorString ''close failed'')\<rparr>"
              "NewWsClient None 0"]
  by (simp add: demo_dialer_def NewWsClient_def initDispatcherHandleMap_def Dial_def emit_def)

text \<open>
  Claim C9. With no address the dialer is not asked, the field \<open>conn\<close> is left as it was
  (nil on a new client), and \<open>Dial\<close> returns no error and logs the success, as after a
  successful connect.
\<close>

theorem Dial_no_addresses:
  "fst (Dial d [] c) = None \<and>
   conn (snd (Dial d [] c)) = conn c \<and>
   conn (snd (Dial d [] (NewWsClient m lg))) = None \<and>
   dialed (effects (snd (Dial d [] c))) = dialed (effects c) \<and>
   snd (Dial d [] c) = emit [Log Info ''dial success'' []] c"
  by (simp add: Dial_def emit_def dialed_append NewWsClient_def initDispatcherHandleMap_def)

subsection \<open>Reset\<close>

text \<open>
  Claim C8. After \<open>Reset\<close> the once is fresh and the close channel open, so that the next
  call of \<open>Close\<close> enters the function of \<open>once.Do\<close> and closes the channel without a
  panic; \<open>authed\<close> and \<open>isClosed\<close> are false; the dispatch table and the logger are the
  same.
\<close>

theorem Reset_rearms_close_state:
  "once (Reset c) = Fresh \<and> closeChan (Reset c) = False \<and>
   authed (Reset c) = False \<and> isClosed (Reset c) = False \<and>
   dispatcher (Reset c) = dispatcher c \<and> logger (Reset c) = logger c \<and>
   Close w (Close_call L113 t err) (Reset c) = Next (Close_call L114 t err, (Reset c)\<lparr>once := Running\<rparr>) \<and>
   Close w (Close_call L114 t err) ((Reset c)\<lparr>once := Running\<rparr>) =
     Next (Close_call L115 t err, (Reset c)\<lparr>once := Running, closeChan := True\<rparr>)"
  by (simp add: Reset_def)

subsection \<open>The event loop\<close>

lemma dispatch_append: "dispatch D (xs @ ys) = dispatch D xs @ dispatch D ys"
  by (induction D xs rule: dispatch.induct) simp_all

lemma eventLoop_msg_step:
  "i < length (evloops s) \<Longrightarrow> evloops s ! i = E170 ticker tr \<Longrightarrow> msgChan (client s) = x # q \<Longrightarrow>
   step E (eventLoop_step i (Some case_msgChan)) s =
     s\<lparr>client := (client s)\<lparr>msgChan := q,
                              effects := effects (client s) @ dispatch (dispatcher (client s)) [x],
                              msgVars := tl (msgVars (client s))\<rparr>\<rparr>"
  by (cases x) (auto simp: emit_def list_update_same_conv split: option.splits)

lemma eventLoop_drains:
  "i < length (evloops s) \<Longrightarrow> evloops s ! i = E170 ticker tr \<Longrightarrow> \<not> panicked s \<Longrightarrow>
   n \<le> length (msgChan (client s)) \<Longrightarrow>
   run E (replicate n (eventLoop_step i (Some case_msgChan))) s =
     s\<lparr>client := (client s)\<lparr>msgChan := drop n (msgChan (client s)),
                              effects := effects (client s) @
                                dispatch (dispatcher (client s)) (take n (msgChan (client s))),
                              msgVars := drop n (msgVars (client s))\<rparr>\<rparr>"
proof (induction n arbitrary: s)
  case 0
  then show ?case by simp
next
  case (Suc n)
  then obtain x q where q: "msgChan (client s) = x # q" by (cases "msgChan (client s)") auto
  let ?s1 = "s\<lparr>client := (client s)\<lparr>msgChan := q,
                 effects := effects (client s) @ dispatch (dispatcher (client s)) [x],
                 msgVars := tl (msgVars (client s))\<rparr>\<rparr>"
  have st: "step E (eventLoop_step i (Some case_msgChan)) s = ?s1"
    using Suc.prems(1,2) q by (rule eventLoop_msg_step)
  have "run E (replicate n (eventLoop_step i (Some case_msgChan))) ?s1 =
        ?s1\<lparr>client := (client ?s1)\<lparr>msgChan := drop n (msgChan (client ?s1)),
               effects := effects (client ?s1) @
                 dispatch (dispatcher (client ?s1)) (take n (msgChan (client ?s1))),
               msgVars := drop n (msgVars (client ?s1))\<rparr>\<rparr>"
    using Suc.prems q by (intro Suc.IH) simp_all
  moreover have "dispatch (dispatcher (client s)) (x # take n q) =
                 dispatch (dispatcher (client s)) [x] @ dispatch (dispatcher (client s)) (take n q)"
    using dispatch_append [of "dispatcher (client s)" "[x]" "take n q"] by simp
  ultimately show ?case using Suc.prems(3) q st by (simp add: drop_Suc)
qed

text \<open>
  Claim C6. The event loop creates its timer with the fixed duration of 10 seconds. When
  the timer fires and \<open>authed\<close> is false, the loop logs the timeout and leaves for its
  deferred function, which ends it; when \<open>AuthSuccess\<close> was called before, the loop stays
  at its \<open>select\<close> and the client is unchanged. No step of the event loop starts a call of
  \<open>Close\<close> or touches the once, the close channel, \<open>isClosed\<close>, or closes the connection or
  calls the callback.
\<close>

theorem eventLoop_auth_timeout:
  "eventLoop E None E159 c =
     Next (E170 15 (Some 10),
           (emit [Log Info ''ws event loop start'' []] c)\<lparr>closeWait := closeWait c + 1\<rparr>) \<and>
   (\<not> authed c \<longrightarrow>
      eventLoop E (Some case_tr) (E170 ticker (Some d)) c =
        Next (E163, emit [Log Error ''auth timeout'' []] c)) \<and>
   (closeWait c \<noteq> 0 \<longrightarrow>
      eventLoop E None E163 c =
        Next (E_done, (emit [Log Info ''ws event loop stop'' []] c)\<lparr>closeWait := closeWait c - 1\<rparr>)) \<and>
   eventLoop E sel E_done c = Blocked \<and>
   eventLoop E (Some case_tr) (E170 ticker (Some d)) (AuthSuccess c) =
     Next (E170 ticker None, AuthSuccess c) \<and>
   closers (step E (eventLoop_step i sel) s) = closers s \<and>
   guarded_part (client (step E (eventLoop_step i sel) s)) = guarded_part (client s)"
proof -
  have "eventLoop E sel E_done c = Blocked" by (cases sel) simp_all
  moreover have "closers (step E (eventLoop_step i sel) s) = closers s \<and>
      guarded_part (client (step E (eventLoop_step i sel) s)) = guarded_part (client s)"
    using eventLoop_guarded_part [of E sel "evloops s ! i" "client s"]
    by (cases "eventLoop E sel (evloops s ! i) (client s)") auto
  ultimately show ?thesis by (simp add: loop_stop_def AuthSuccess_def)
qed

text \<open>The example client, not authenticated and with the loop registered; then authenticated.\<close>

theorem eventLoop_auth_timeout_witness:
  "\<not> authed (client started) \<and> closeWait (client started) \<noteq> 0 \<and>
   evloops (run demo_env [eventLoop_step 0 (Some case_tr), eventLoop_step 0 None] started) = [E_done] \<and>
   closers (run demo_env [eventLoop_step 0 (Some case_tr), eventLoop_step 0 None] started) = [] \<and>
   once (client (run demo_env [eventLoop_step 0 (Some case_tr), eventLoop_step 0 None] started)) = Fresh \<and>
   evloops (run demo_env [Call_AuthSuccess, eventLoop_step 0 (Some case_tr)] started) = [E170 15 None]"
  using eventLoop_auth_timeout [of demo_env "client started" 15 10 None 0 started]
  by (simp add: started_def demo_client_value idle_def emit_def loop_stop_def AuthSuccess_def)

text \<open>
  Claim C7. While the event loop takes the case of \<open>msgChan\<close>, for \<open>n\<close> queued elements, it
  stays at its \<open>select\<close> and nothing panics; the elements are removed oldest first, and
  what is recorded is what \<open>dispatch\<close> says: for a message whose operation code is in the
  table the call of its handler, and an error log line if the handler fails; nothing at
  all for a message whose operation code is absent.
\<close>

theorem eventLoop_dispatch:
  assumes "i < length (evloops s)" and "evloops s ! i = E170 ticker tr" and "\<not> panicked s"
    and "n \<le> length (msgChan (client s))"
  shows "evloops (run E (replicate n (eventLoop_step i (Some case_msgChan))) s) ! i = E170 ticker tr \<and>
    \<not> panicked (run E (replicate n (eventLoop_step i (Some case_msgChan))) s) \<and>
    msgChan (client (run E (replicate n (eventLoop_step i (Some case_msgChan))) s)) =
      drop n (msgChan (client s)) \<and>
    effects (client (run E (replicate n (eventLoop_step i (Some case_msgChan))) s)) =
      effects (client s) @ dispatch (dispatcher (client s)) (take n (msgChan (client s))) \<and>
    (dispatcher (client s) (Operation msg) = None \<longrightarrow> dispatch (dispatcher (client s)) [Some msg] = []) \<and>
    (\<forall>handle. dispatcher (client s) (Operation msg) = Some handle \<longrightarrow>
       dispatch (dispatcher (client s)) [Some msg] =
         HandleCall (Operation msg) msg #
         (case handle msg of
            None \<Rightarrow> []
          | Some err \<Rightarrow> [Log Error ''handle msg fail'' [slog_String ''err'' (ErrorOf err)]]))"
  using assms eventLoop_drains [OF assms, of E] by simp

text \<open>Three queued messages: one handled, one with an absent operation code, one whose handler fails.\<close>

theorem eventLoop_dispatch_witness:
  "evloops loaded ! 0 = E170 15 (Some 10) \<and> \<not> panicked loaded \<and>
   msgChan (client loaded) =
     [Some \<lparr>Operation = 5, Payload = [5]\<rparr>, Some \<lparr>Operation = 9, Payload = [9]\<rparr>,
      Some \<lparr>Operation = 7, Payload = [7]\<rparr>] \<and>
   dispatcher (client loaded) 9 = None \<and>
   evloops (run demo_env (replicate 3 (eventLoop_step 0 (Some case_msgChan))) loaded) ! 0 =
     E170 15 (Some 10) \<and>
   msgChan (client (run demo_env (replicate 3 (eventLoop_step 0 (Some case_msgChan))) loaded)) = [] \<and>
   effects (client (run demo_env (replicate 3 (eventLoop_step 0 (Some case_msgChan))) loaded)) =
     effects (client loaded) @
     [HandleCall 5 \<lparr>Operation = 5, Payload = [5]\<rparr>,
      HandleCall 7 \<lparr>Operation = 7, Payload = [7]\<rparr>,
      Log Error ''handle msg fail'' [slog_String ''err'' (ErrorOf (ErrorString ''bad payload''))]]"
  using eventLoop_dispatch [of 0 loaded 15 "Some 10" 3 demo_env "\<lparr>Operation = 9, Payload = [9]\<rparr>"]
  by (simp add: loaded_value demo_client_value demo_handlers_def)

subsection \<open>The reader\<close>

lemma readMessage_left_loop:
  "left_loop r \<Longrightarrow> readMessage E inp r c = Next (r', go, c') \<Longrightarrow> go = None \<and> left_loop r'"
  by (cases r; cases inp) (auto simp: loop_stop_def split: if_splits)

lemma quiet_step:
  assumes "list_all left_loop (readers s)" and "quiet a"
  shows "list_all left_loop (readers (step E a s)) \<and>
         map t_of (closers (step E a s)) = map t_of (closers s)"
proof (cases a)
  case (Close_step i w)
  show ?thesis
  proof (cases "i < length (closers s)")
    case True
    then show ?thesis
      using assms Close_step Close_fixed_part [of w "closers s ! i" "client s"]
        map_update_same [OF True, of t_of]
      by (cases "Close w (closers s ! i) (client s)") auto
  next
    case False
    then show ?thesis using assms Close_step by simp
  qed
next
  case (readMessage_step i inp)
  show ?thesis
  proof (cases "i < length (readers s)")
    case True
    then have l: "left_loop (readers s ! i)" using assms(1) by (simp add: list_all_length)
    show ?thesis
    proof (cases "readMessage E inp (readers s ! i) (client s)")
      case (Next x)
      then obtain r go c' where n: "readMessage E inp (readers s ! i) (client s) = Next (r, go, c')"
        by (cases x) auto
      with l have "go = None" "left_loop r" using readMessage_left_loop by blast+
      then show ?thesis using assms True readMessage_step n list_all_update by auto
    qed (use assms True readMessage_step in simp_all)
  next
    case False
    then show ?thesis using assms readMessage_step by simp
  qed
next
  case (eventLoop_step i sel)
  then show ?thesis
    using assms by (cases "eventLoop E sel (evloops s ! i) (client s)") auto
qed (use assms in simp_all)

lemma quiet_run:
  "list_all left_loop (readers s) \<Longrightarrow> \<forall>a\<in>set acts. quiet a \<Longrightarrow>
   list_all left_loop (readers (run E acts s)) \<and>
   map t_of (closers (run E acts s)) = map t_of (closers s)"
proof (induction acts arbitrary: s)
  case Nil
  then show ?case by simp
next
  case (Cons a acts)
  then have q: "quiet a" "\<forall>a\<in>set acts. quiet a" by simp_all
  note st = quiet_step [OF Cons.prems(1) q(1), of E]
  show ?case using Cons.IH [of "step E a s"] st q Cons.prems(1) by simp
qed

lemma ReadMessage_never_close:
  "ReadMessage a \<noteq> Some (CloseMessage, buf, None)"
  by (cases a) (simp_all add: frame_types)

text \<open>
  Claim C4 fails on the code, against what the code sets out to do (the comment at line
  208 and the branch at line 217). The peer's close frame arrives while the reader is in
  \<open>conn.ReadMessage()\<close>, at a time when the once is fresh, the connection is set, \<open>isClosed\<close>
  is false, no call of \<open>Close\<close> has been made and every other reader has left its loop.
  The call returns the close error, so the reader takes the branch of line 211: it logs
  \<open>read message fail\<close>, starts the call \<open>Close(CloseReadingConnError)\<close> and leaves its
  loop. Whatever the goroutines do afterwards, without a new call of \<open>Close\<close> or \<open>Run\<close>
  from outside, that call stays the only call of \<open>Close\<close>, so the callbacks recorded are
  none or the one with \<open>CloseReadingConnError\<close>, which is not
  \<open>CloseReceivedShutdownMessage\<close>; and as soon as the call is back from \<open>once.Do\<close> the
  callback has been called with \<open>CloseReadingConnError\<close>. The branch of line 217 would
  start \<open>Close(CloseReceivedShutdownMessage)\<close>, but nothing that arrives makes
  \<open>conn.ReadMessage()\<close> return the type \<open>CloseMessage\<close> with a nil error.
\<close>

theorem readMessage_peer_close_frame:
  assumes "armed s" and "closers s = []" and "i < length (readers s)" and "readers s ! i = R209"
    and "\<forall>j<length (readers s). j \<noteq> i \<longrightarrow> left_loop (readers s ! j)"
    and "conn (client s) \<noteq> None" and "\<not> isClosed (client s)"
    and "onClose (client s) = Some cb" and "\<forall>a\<in>set acts. quiet a"
  shows "closers (step E (readMessage_step i (ReadMessage (Close_frame code reason))) s) =
           [Close_call L110 CloseReadingConnError None] \<and>
    readers (step E (readMessage_step i (ReadMessage (Close_frame code reason))) s) =
      (readers s)[i := R203] \<and>
    effects (client (step E (readMessage_step i (ReadMessage (Close_frame code reason))) s)) =
      effects (client s) @
      [Log Error ''read message fail''
         [slog_String ''err''
            (ErrorOf (Wrapf (CloseError code reason) ''msg_type:%d'' [IntArg noFrame]))]] \<and>
    list_all left_loop
      (readers (run E acts (step E (readMessage_step i (ReadMessage (Close_frame code reason))) s))) \<and>
    map t_of (closers (run E acts (step E (readMessage_step i (ReadMessage (Close_frame code reason))) s))) =
      [CloseReadingConnError] \<and>
    (close_calls (client (run E acts (step E (readMessage_step i (ReadMessage (Close_frame code reason))) s))) =
       close_calls (client s) \<or>
     close_calls (client (run E acts (step E (readMessage_step i (ReadMessage (Close_frame code reason))) s))) =
       close_calls (client s) @ [OnCloseCall cb CloseReadingConnError]) \<and>
    (finished (run E acts (step E (readMessage_step i (ReadMessage (Close_frame code reason))) s)) \<noteq> [] \<longrightarrow>
       close_calls (client (run E acts (step E (readMessage_step i (ReadMessage (Close_frame code reason))) s))) =
         close_calls (client s) @ [OnCloseCall cb CloseReadingConnError]) \<and>
    CloseReadingConnError \<noteq> CloseReceivedShutdownMessage \<and>
    readMessage E (Some (CloseMessage, buf, None)) R209 (client s) =
      Next (R203, Some CloseReceivedShutdownMessage,
            emit [Log Info ''received shutdown message'' [slog_Int ''msg_type'' CloseMessage]]
              (client s)) \<and>
    (\<forall>a b. ReadMessage a \<noteq> Some (CloseMessage, b, None))"
proof -
  let ?s1 = "step E (readMessage_step i (ReadMessage (Close_frame code reason))) s"
  let ?s' = "run E acts ?s1"
  let ?t = CloseReadingConnError
  let ?log = "[Log Error ''read message fail''
                 [slog_String ''err''
                    (ErrorOf (Wrapf (CloseError code reason) ''msg_type:%d'' [IntArg noFrame]))]]"
  from assms(6) obtain k where k: "conn (client s) = Some k" by auto
  have s1: "?s1 = s\<lparr>client := emit ?log (client s),
                    readers := (readers s)[i := R203],
                    closers := [Close_call L110 ?t None]\<rparr>"
    using assms(2,3,4,7) k by simp
  have a1: "armed ?s1" unfolding s1 using assms(1) by (simp add: armed_def emit_def)
  have l1: "list_all left_loop (readers ?s1)"
    unfolding s1 using assms(3,5) by (auto simp: list_all_length nth_list_update)
  have q: "list_all left_loop (readers ?s')" "map t_of (closers ?s') = [?t]"
    using quiet_run [OF l1 assms(9), of E] unfolding s1 by simp_all
  have tt: "t_of th = ?t" if "th \<in> set (closers ?s')" for th
  proof -
    from that have "t_of th \<in> set (map t_of (closers ?s'))" by simp
    then show ?thesis by (simp only: q(2)) simp
  qed
  have bo: "close_calls (client ?s1) = close_calls (client s)"
    unfolding s1 by (simp add: close_calls_def emit_def)
  have inv: "guard_inv (closed_conns (client ?s1)) (close_calls (client s)) ?s'"
    using guard_inv_run [OF armed_guard_inv [OF a1], of E acts] by (simp only: bo)
  have "fixed_part (client ?s') = fixed_part (client s)"
    by (simp only: run_fixed_part step_fixed_part)
  with assms(8) have cb: "onClose (client ?s') = Some cb" by (simp add: fixed_part_def)
  have calls: "(close_calls (client ?s') = close_calls (client s) \<or>
       close_calls (client ?s') = close_calls (client s) @ [OnCloseCall cb ?t]) \<and>
      (finished ?s' \<noteq> [] \<longrightarrow> close_calls (client ?s') = close_calls (client s) @ [OnCloseCall cb ?t])"
  proof (cases "once (client ?s')")
    case Fresh
    with inv show ?thesis by (simp add: guard_inv_def)
  next
    case Running
    with inv have b: "length (body ?s') = 1" and f: "finished ?s' = []"
      and c: "close_calls (client ?s') = close_calls (client s) @
            (if pc_of (hd (body ?s')) = L124 then notify (client ?s') (t_of (hd (body ?s'))) else [])"
      by (simp_all add: guard_inv_def)
    from b have "hd (body ?s') \<in> set (body ?s')" by (cases "body ?s'") simp_all
    then have "hd (body ?s') \<in> set (closers ?s')" by (simp add: body_def)
    then have "t_of (hd (body ?s')) = ?t" by (rule tt)
    with c f cb show ?thesis by (simp add: notify_def)
  next
    case Done
    with inv obtain t where t: "t \<in> set (map t_of (finished ?s'))"
      and c: "close_calls (client ?s') = close_calls (client s) @ notify (client ?s') t"
      by (auto simp: guard_inv_def)
    from t have "t \<in> set (map t_of (closers ?s'))" by (auto simp: finished_def)
    then have "t = ?t" by (simp only: q(2)) simp
    with c cb show ?thesis by (simp add: notify_def)
  qed
  have ne: "?t \<noteq> CloseReceivedShutdownMessage"
    by (simp add: CloseReceivedShutdownMessage_def CloseReadingConnError_def)
  have br: "readMessage E (Some (CloseMessage, buf, None)) R209 (client s) =
      Next (R203, Some CloseReceivedShutdownMessage,
            emit [Log Info ''received shutdown message'' [slog_Int ''msg_type'' CloseMessage]]
              (client s))"
    using k by simp
  have dead: "\<forall>a b. ReadMessage a \<noteq> Some (CloseMessage, b, None)"
    using ReadMessage_never_close by simp
  have first: "closers ?s1 = [Close_call L110 ?t None]" "readers ?s1 = (readers s)[i := R203]"
    "effects (client ?s1) = effects (client s) @ ?log"
    unfolding s1 by (simp_all add: emit_def)
  show ?thesis
    by (intro conjI first q calls [THEN conjunct1] calls [THEN conjunct2] ne br dead)
qed

text \<open>
  The example program: the close frame of the peer arrives with the code 1000, the call
  that the reader starts runs to its return while the event loop leaves at the close
  signal, and the one callback has the close type 3.
\<close>

theorem readMessage_peer_close_frame_witness:
  "armed started \<and> closers started = [] \<and> readers started = [R209] \<and>
   conn (client started) \<noteq> None \<and> \<not> isClosed (client started) \<and>
   onClose (client started) = Some ''cb'' \<and>
   finished (run demo_env peer_close_run started) \<noteq> [] \<and>
   close_calls (client (run demo_env peer_close_run started)) = [OnCloseCall ''cb'' 3] \<and>
   CloseReceivedShutdownMessage = 4"
  using readMessage_peer_close_frame [of started 0 "''cb''" "tl peer_close_run" demo_env 1000 "[]" "[]"]
  by (simp add: started_value peer_close_run_def close_sent_def demo_client_value emit_def
        loop_stop_def armed_def finished_def close_calls_def frame_types CloseNormalClosure_def
        CloseReadingConnError_def CloseReceivedShutdownMessage_def)

subsection \<open>The queue across Reset\<close>

lemma Dial_loop_keeps:
  "msgChan (snd (Dial_loop d links err c)) = msgChan c \<and>
   dispatcher (snd (Dial_loop d links err c)) = dispatcher c"
  by (induction d links err c rule: Dial_loop.induct) (auto simp: emit_def split: sum.splits)

lemma Dial_keeps:
  "msgChan (snd (Dial d links c)) = msgChan c \<and> dispatcher (snd (Dial d links c)) = dispatcher c"
  using Dial_loop_keeps [of d links None c]
  by (cases "Dial_loop d links None c") (auto simp: Dial_def emit_def split: option.splits)

text \<open>
  Claim C10. \<open>Reset\<close> and a following \<open>Dial\<close> leave the elements queued on \<open>msgChan\<close> as
  they are. When \<open>Run\<close> is then called and the new event loop takes the case of
  \<open>msgChan\<close> once for every element left over, it dispatches them, oldest first, with the
  client's dispatch table: the handlers of the messages whose operation code is in the
  table are called.
\<close>

theorem Reset_keeps_msgChan:
  "msgChan (Reset c) = msgChan c \<and>
   msgChan (snd (Dial d links (Reset c))) = msgChan c \<and>
   msgChan (client (run E (Call_Run # eventLoop_step 0 None #
                            replicate (length (msgChan c)) (eventLoop_step 0 (Some case_msgChan)))
                      (idle (snd (Dial d links (Reset c)))))) = [] \<and>
   effects (client (run E (Call_Run # eventLoop_step 0 None #
                            replicate (length (msgChan c)) (eventLoop_step 0 (Some case_msgChan)))
                      (idle (snd (Dial d links (Reset c)))))) =
     effects (snd (Dial d links (Reset c))) @
     Log Info ''ws event loop start'' [] # dispatch (dispatcher c) (msgChan c)"
proof -
  let ?c2 = "snd (Dial d links (Reset c))"
  let ?n = "length (msgChan c)"
  let ?s2 = "\<lparr>client = (emit [Log Info ''ws event loop start'' []] ?c2)\<lparr>closeWait := closeWait ?c2 + 1\<rparr>,
              closers = [], readers = [R200], evloops = [E170 15 (Some 10)], panicked = False\<rparr>"
  have r: "msgChan (Reset c) = msgChan c" "dispatcher (Reset c) = dispatcher c"
    by (simp_all add: Reset_def)
  have k: "msgChan ?c2 = msgChan c" "dispatcher ?c2 = dispatcher c"
    using Dial_keeps [of d links "Reset c"] r by simp_all
  have "run E (Call_Run # eventLoop_step 0 None # replicate ?n (eventLoop_step 0 (Some case_msgChan)))
          (idle ?c2) =
        run E (replicate ?n (eventLoop_step 0 (Some case_msgChan))) ?s2"
    by (simp add: idle_def)
  also have "\<dots> = ?s2\<lparr>client := (client ?s2)\<lparr>msgChan := drop ?n (msgChan (client ?s2)),
                  effects := effects (client ?s2) @
                    dispatch (dispatcher (client ?s2)) (take ?n (msgChan (client ?s2))),
                  msgVars := drop ?n (msgVars (client ?s2))\<rparr>\<rparr>"
    using k by (intro eventLoop_drains [of 0 _ 15 "Some 10"]) (simp_all add: emit_def)
  finally show ?thesis using r k by (simp add: emit_def)
qed

text \<open>
  The three messages left on the queue when the example client was torn down are
  dispatched after \<open>Reset\<close>, \<open>Dial\<close> and \<open>Run\<close>.
\<close>

theorem Reset_keeps_msgChan_witness:
  "msgChan (client (run demo_env peer_close_run loaded)) =
     [Some \<lparr>Operation = 5, Payload = [5]\<rparr>, Some \<lparr>Operation = 9, Payload = [9]\<rparr>,
      Some \<lparr>Operation = 7, Payload = [7]\<rparr>] \<and>
   filter is_HandleCall
     (effects (client (run demo_env
        [Call_Run, eventLoop_step 0 None, eventLoop_step 0 (Some case_msgChan),
         eventLoop_step 0 (Some case_msgChan), eventLoop_step 0 (Some case_msgChan)]
        (idle (snd (Dial demo_dialer [''wss://b''] (Reset (client (run demo_env peer_close_run loaded))))))))) =
     [HandleCall 5 \<lparr>Operation = 5, Payload = [5]\<rparr>, HandleCall 7 \<lparr>Operation = 7, Payload = [7]\<rparr>]"
  using Reset_keeps_msgChan [of "client (run demo_env peer_close_run loaded)" demo_dialer "[''wss://b'']" demo_env]
  by (simp add: peer_close_loaded_value demo_client_value demo_handlers_def demo_dialer_def
        Reset_def Dial_def emit_def idle_def)

end
